theory Spec2Isabelle
  imports Complex_Main "HOL-Library.Signed_Division" "HOL-Library.Multiset" "HOL-Library.Monad_Syntax"
begin

chapter \<open>FIDS-TUI: the split-flap animation engine and the flight board\<close>

text \<open>
  A shallow embedding of the packages \<^verbatim>\<open>ui\<close> (animation.go, flight_row.go, board.go),
  \<^verbatim>\<open>models\<close> (flight.go) and of the message handler of main.go.

  Conventions of the embedding.
  \<^item> A Go \<^verbatim>\<open>string\<close> is a byte sequence: a HOL \<open>string\<close>. A \<^verbatim>\<open>rune\<close> is an \<open>int\<close>.
  \<^item> Go's \<^verbatim>\<open>int\<close> is \<open>int\<close>; \<^verbatim>\<open>/\<close> and \<^verbatim>\<open>%\<close> truncate toward zero (\<open>sdiv\<close>, \<open>smod\<close>).
    Lengths, page sizes and page indices are assumed to stay below \<open>2^63\<close>, so no
    arithmetic of the board wraps around.
  \<^item> A run-time panic (index or slice bound out of range, a negative \<^verbatim>\<open>make\<close>, a nil or
    dangling pointer, a division by zero) is the value \<open>None\<close>.
  \<^item> \<^verbatim>\<open>time.Now()\<close> is an input: every function that reads the clock takes the readings
    as a parameter, one reading per place where the source calls \<^verbatim>\<open>time.Now()\<close>.
  \<^item> The mutexes of animation.go serialise whole calls; the embedding is sequential.
\<close>

section \<open>Go primitives\<close>

type_synonym rune = int

text \<open>A reading of the clock and a \<^verbatim>\<open>time.Duration\<close>, both in nanoseconds.\<close>

type_synonym Instant = int
type_synonym Duration = int

definition Millisecond :: Duration where
  "Millisecond = 1000000"

text \<open>\<^verbatim>\<open>Duration.Milliseconds()\<close>: an integer division of the nanosecond count.\<close>

definition Milliseconds :: "Duration \<Rightarrow> int" where
  "Milliseconds d = d sdiv 1000000"

text \<open>\<^verbatim>\<open>rune(s[i])\<close>: a byte read as a code point.\<close>

definition rune_of_byte :: "char \<Rightarrow> rune" where
  "rune_of_byte c = of_char c"

text \<open>
  \<^verbatim>\<open>string(result)\<close> for a \<^verbatim>\<open>[]rune\<close>: the UTF-8 encoding of each rune, an invalid rune
  encoded as U+FFFD.
\<close>

definition utf8_EncodeRune :: "rune \<Rightarrow> string" where
  "utf8_EncodeRune r =
     (if r < 0 \<or> 1114111 < r \<or> (55296 \<le> r \<and> r \<le> 57343)
        then [char_of (239::int), char_of (191::int), char_of (189::int)]
      else if r < 128 then [char_of r]
      else if r < 2048 then [char_of (192 + r div 64), char_of (128 + r mod 64)]
      else if r < 65536
        then [char_of (224 + r div 4096), char_of (128 + (r div 64) mod 64),
              char_of (128 + r mod 64)]
      else [char_of (240 + r div 262144), char_of (128 + (r div 4096) mod 64),
            char_of (128 + (r div 64) mod 64), char_of (128 + r mod 64)])"

definition string_of_runes :: "rune list \<Rightarrow> string" where
  "string_of_runes rs = concat (map utf8_EncodeRune rs)"

text \<open>
  The number of characters (code points) of a UTF-8 string: its bytes that are not
  continuation bytes \<^verbatim>\<open>10xxxxxx\<close>.
\<close>

definition is_continuation :: "char \<Rightarrow> bool" where
  "is_continuation c = (128 \<le> (of_char c :: int) \<and> (of_char c :: int) < 192)"

definition RuneCount :: "string \<Rightarrow> nat" where
  "RuneCount s = length (filter (\<lambda>c. \<not> is_continuation c) s)"

text \<open>
  A \<^verbatim>\<open>time.Time\<close> of a flight: the instant in nanoseconds since the Unix epoch and the
  location it is shown in. A \<^verbatim>\<open>*time.Location\<close> gives the offset from UTC, in seconds,
  that is in force at a Unix time in seconds.
\<close>

type_synonym Location = "int \<Rightarrow> int"

record Time =
  unixNano :: int
  zone :: Location

definition In :: "Time \<Rightarrow> Location \<Rightarrow> Time" where
  "In t l = t\<lparr>zone := l\<rparr>"

definition Before :: "Time \<Rightarrow> Time \<Rightarrow> bool" where
  "Before t u = (unixNano t < unixNano u)"

definition two_digits :: "int \<Rightarrow> string" where
  "two_digits n = [char_of (48 + n div 10), char_of (48 + n mod 10)]"

text \<open>\<^verbatim>\<open>t.Format("15:04")\<close>: hour and minute of the wall clock in the time's location.\<close>

definition Format_1504 :: "Time \<Rightarrow> string" where
  "Format_1504 t =
     (let sec = unixNano t div 1000000000;
          wall = sec + zone t sec
      in two_digits ((wall mod 86400) div 3600) @ '':'' @ two_digits ((wall mod 3600) div 60))"

section \<open>animation.go\<close>

datatype CharAnimationState = CharStateStable | CharStateBlinking | CharStateComplete

record CharAnimation =
  OldChar :: rune
  NewChar :: rune
  State :: CharAnimationState
  BlinkPhase :: int
  StartTime :: Instant

text \<open>\<open>Chars\<close> is a \<^verbatim>\<open>[]*CharAnimation\<close>: \<open>None\<close> is the nil pointer.\<close>

record AnimatedText =
  OldText :: string
  NewText :: string
  Chars :: "CharAnimation option list"
  MaxLength :: int

text \<open>\<^verbatim>\<open>make([]*CharAnimation, maxLength)\<close> panics on a negative length.\<close>

definition NewAnimatedText :: "int \<Rightarrow> AnimatedText option" where
  "NewAnimatedText maxLength =
     (if maxLength < 0 then None
      else Some \<lparr>OldText = [], NewText = [],
                 Chars = replicate (nat maxLength) None, MaxLength = maxLength\<rparr>)"

text \<open>
  The first two statements of \<^verbatim>\<open>Update\<close>, for the new and for the old text: truncate a
  longer text (\<^verbatim>\<open>s[:n]\<close> panics on a negative \<open>n\<close>), pad a shorter one with spaces.
\<close>

definition pad_or_truncate :: "int \<Rightarrow> string \<Rightarrow> string option" where
  "pad_or_truncate n s =
     (if n < int (length s) then (if n < 0 then None else Some (take (nat n) s))
      else Some (s @ replicate (nat (n - int (length s))) CHR '' ''))"

definition char_at :: "string \<Rightarrow> nat \<Rightarrow> rune" where
  "char_at s i = (if i < length s then rune_of_byte (s ! i) else rune_of_byte CHR '' '')"

text \<open>
  The body of the loop of \<^verbatim>\<open>Update\<close> at one position: a nil cell is allocated, and a
  changed character starts the animation at the clock reading \<open>now\<close>.
\<close>

definition update_char :: "Instant \<Rightarrow> rune \<Rightarrow> rune \<Rightarrow> CharAnimation option \<Rightarrow> CharAnimation" where
  "update_char now oldChar newChar cell =
     (let c = (case cell of
                 None \<Rightarrow> \<lparr>OldChar = oldChar, NewChar = newChar, State = CharStateStable,
                           BlinkPhase = 0, StartTime = 0\<rparr>
               | Some c0 \<Rightarrow> c0)
      in if oldChar \<noteq> newChar
         then c\<lparr>OldChar := oldChar, NewChar := newChar, State := CharStateBlinking,
                BlinkPhase := 0, StartTime := now\<rparr>
         else c)"

text \<open>The loop over \<open>i = 0 ..< MaxLength\<close>; \<^verbatim>\<open>at.Chars[i]\<close> panics out of range.\<close>

fun update_loop ::
  "(nat \<Rightarrow> Instant) \<Rightarrow> string \<Rightarrow> string \<Rightarrow> nat list \<Rightarrow> CharAnimation option list
   \<Rightarrow> CharAnimation option list option" where
  "update_loop clk oldText newText [] cs = Some cs"
| "update_loop clk oldText newText (i # is) cs =
     (if i < length cs
      then update_loop clk oldText newText is
             (cs[i := Some (update_char (clk i) (char_at oldText i) (char_at newText i) (cs ! i))])
      else None)"

text \<open>\<open>clk i\<close> is what \<^verbatim>\<open>time.Now()\<close> returns at position \<open>i\<close>.\<close>

definition Update :: "(nat \<Rightarrow> Instant) \<Rightarrow> string \<Rightarrow> AnimatedText \<Rightarrow> AnimatedText option" where
  "Update clk text fld =
     do {
       newText \<leftarrow> pad_or_truncate (MaxLength fld) text;
       oldText \<leftarrow> pad_or_truncate (MaxLength fld) (OldText fld);
       cs \<leftarrow> update_loop clk oldText newText [0..<nat (MaxLength fld)] (Chars fld);
       Some (fld\<lparr>NewText := newText, Chars := cs, OldText := newText\<rparr>)
     }"

text \<open>
  The body of the loop of \<^verbatim>\<open>Tick\<close> on a non-nil cell; \<open>now - StartTime\<close> is
  \<^verbatim>\<open>time.Since(char.StartTime)\<close>.
\<close>

definition tick_char :: "Instant \<Rightarrow> CharAnimation \<Rightarrow> CharAnimation" where
  "tick_char now c =
     (if State c = CharStateBlinking then
        (let elapsed = now - StartTime c;
             c1 = c\<lparr>BlinkPhase := (Milliseconds elapsed sdiv 100) smod 2\<rparr>
         in if 300 * Millisecond < elapsed then c1\<lparr>State := CharStateComplete\<rparr> else c1)
      else if State c = CharStateComplete then c\<lparr>State := CharStateStable\<rparr>
      else c)"

definition Tick :: "(nat \<Rightarrow> Instant) \<Rightarrow> AnimatedText \<Rightarrow> AnimatedText" where
  "Tick clk fld =
     fld\<lparr>Chars := map (\<lambda>(i, cell). map_option (tick_char (clk i)) cell)
                      (enumerate 0 (Chars fld))\<rparr>"

text \<open>The solid block U+2588 and the light block U+2591.\<close>

definition render_char :: "CharAnimation option \<Rightarrow> rune" where
  "render_char cell =
     (case cell of
        None \<Rightarrow> rune_of_byte CHR '' ''
      | Some c \<Rightarrow>
          (case State c of
             CharStateBlinking \<Rightarrow> (if BlinkPhase c = 0 then 9608 else 9617)
           | CharStateComplete \<Rightarrow> NewChar c
           | CharStateStable \<Rightarrow> NewChar c))"

text \<open>The loop of \<^verbatim>\<open>Render\<close>; \<^verbatim>\<open>result[i]\<close> panics when \<open>i\<close> is not below \<open>MaxLength\<close>.\<close>

fun render_loop ::
  "(nat \<times> CharAnimation option) list \<Rightarrow> rune list \<Rightarrow> rune list option" where
  "render_loop [] result = Some result"
| "render_loop ((i, cell) # rest) result =
     (if i < length result then render_loop rest (result[i := render_char cell]) else None)"

text \<open>The slice \<^verbatim>\<open>result\<close> when \<^verbatim>\<open>Render\<close> returns, and the string made of it.\<close>

definition Render_runes :: "AnimatedText \<Rightarrow> rune list option" where
  "Render_runes fld =
     (if MaxLength fld < 0 then None
      else render_loop (enumerate 0 (Chars fld)) (replicate (nat (MaxLength fld)) 0))"

definition Render :: "AnimatedText \<Rightarrow> string option" where
  "Render fld = map_option string_of_runes (Render_runes fld)"


section \<open>models/flight.go\<close>

text \<open>
  \<^verbatim>\<open>type FlightStatus int\<close>: the five constants are 0 to 4, and every \<^verbatim>\<open>switch\<close> over
  a status has a \<^verbatim>\<open>default\<close> branch for the other values.
\<close>

type_synonym FlightStatus = int

definition StatusOnTime :: FlightStatus where
  "StatusOnTime = 0"

definition StatusDelayed :: FlightStatus where
  "StatusDelayed = 1"

definition StatusTaxiingLeftGate :: FlightStatus where
  "StatusTaxiingLeftGate = 2"

definition StatusTaxiingDelayed :: FlightStatus where
  "StatusTaxiingDelayed = 3"

definition StatusCancelled :: FlightStatus where
  "StatusCancelled = 4"

text \<open>\<open>EstimatedDeparture\<close> is a \<^verbatim>\<open>*time.Time\<close>: \<open>None\<close> is nil.\<close>

record Flight =
  Status :: FlightStatus
  AirlineCode :: string
  AirlineName :: string
  FlightNumber :: string
  DestinationCode :: string
  DestinationCity :: string
  Gate :: string
  Remarks :: string
  ScheduledDeparture :: Time
  EstimatedDeparture :: "Time option"

definition GetStatusColor :: "Flight \<Rightarrow> string" where
  "GetStatusColor f =
     (if Status f = StatusOnTime then ''green''
      else if Status f = StatusDelayed then ''orange''
      else if Status f = StatusTaxiingLeftGate then ''yellow''
      else if Status f = StatusTaxiingDelayed then ''orange''
      else if Status f = StatusCancelled then ''red''
      else ''white'')"

definition GetDestination :: "Flight \<Rightarrow> string" where
  "GetDestination f =
     (if DestinationCity f \<noteq> [] then DestinationCode f @ '' '' @ DestinationCity f
      else DestinationCode f)"

section \<open>The store\<close>

text \<open>
  Rows are shared through \<^verbatim>\<open>*FlightRow\<close> pointers and a row points into the slice of
  flights it was last updated from (\<^verbatim>\<open>flight := &flights[i]\<close>). So the rows live in a
  store, addressed by their index, and so do the slices of flights, addressed by an
  identifier: a \<^verbatim>\<open>*models.Flight\<close> is a slice and an index into it. A pointer that
  addresses nothing (as the nil pointer does) makes the access panic.
\<close>

type_synonym FlightPtr = "nat \<times> nat"

record FlightRow =
  Flight :: "FlightPtr option"
  StatusAnim :: AnimatedText
  FlightNumAnim :: AnimatedText
  TimeAnim :: AnimatedText
  DestinationAnim :: AnimatedText
  GateAnim :: AnimatedText
  RemarksAnim :: AnimatedText

record Heap =
  slices :: "nat \<Rightarrow> Flight list"
  rows :: "FlightRow list"

definition deref :: "Heap \<Rightarrow> FlightPtr \<Rightarrow> Flight option" where
  "deref h p = (if snd p < length (slices h (fst p)) then Some (slices h (fst p) ! snd p) else None)"

definition lookup_row :: "Heap \<Rightarrow> nat \<Rightarrow> FlightRow option" where
  "lookup_row h r = (if r < length (rows h) then Some (rows h ! r) else None)"

section \<open>flight_row.go\<close>

definition getStatusChar :: "FlightStatus \<Rightarrow> string" where
  "getStatusChar status =
     (if status = StatusOnTime then ''*''
      else if status = StatusDelayed then ''!''
      else if status = StatusTaxiingLeftGate then ''>''
      else if status = StatusTaxiingDelayed then ''>''
      else if status = StatusCancelled then ''X''
      else '' '')"

text \<open>
  \<^verbatim>\<open>truncate\<close> (the name is taken by the record package). Every call passes a literal
  length (8, 20 or 6).
\<close>

definition truncate_string :: "string \<Rightarrow> nat \<Rightarrow> string" where
  "truncate_string s maxLen = (if length s \<le> maxLen then s else take maxLen s)"

definition gate_text :: "Flight \<Rightarrow> string" where
  "gate_text f = (let gate = truncate_string (Gate f) 6 in if gate = [] then ''     '' else gate)"

text \<open>
  The six updates that \<^verbatim>\<open>NewFlightRow\<close> (for a non-nil flight) and \<^verbatim>\<open>FlightRow.Update\<close>
  both perform, statement for statement the same in the source. \<open>clk k\<close> are the clock
  readings of the \<open>k\<close>-th field.
\<close>

definition update_fields ::
  "(nat \<Rightarrow> nat \<Rightarrow> Instant) \<Rightarrow> Flight \<Rightarrow> FlightRow \<Rightarrow> FlightRow option" where
  "update_fields clk f fr =
     do {
       s \<leftarrow> Update (clk 0) (getStatusChar (Status f)) (StatusAnim fr);
       n \<leftarrow> Update (clk 1) (truncate_string (FlightNumber f) 8) (FlightNumAnim fr);
       t \<leftarrow> Update (clk 2) (Format_1504 (ScheduledDeparture f)) (TimeAnim fr);
       d \<leftarrow> Update (clk 3) (truncate_string (GetDestination f) 20) (DestinationAnim fr);
       g \<leftarrow> Update (clk 4) (gate_text f) (GateAnim fr);
       r \<leftarrow> Update (clk 5) (truncate_string (Remarks f) 20) (RemarksAnim fr);
       Some (fr\<lparr>StatusAnim := s, FlightNumAnim := n, TimeAnim := t, DestinationAnim := d,
                GateAnim := g, RemarksAnim := r\<rparr>)
     }"

text \<open>\<^verbatim>\<open>NewFlightRow\<close> allocates the row: it returns the new address and the store.\<close>

definition NewFlightRow ::
  "(nat \<Rightarrow> nat \<Rightarrow> Instant) \<Rightarrow> FlightPtr option \<Rightarrow> Heap \<Rightarrow> (nat \<times> Heap) option" where
  "NewFlightRow clk flight h =
     do {
       a0 \<leftarrow> NewAnimatedText 1;
       a1 \<leftarrow> NewAnimatedText 8;
       a2 \<leftarrow> NewAnimatedText 8;
       a3 \<leftarrow> NewAnimatedText 20;
       a4 \<leftarrow> NewAnimatedText 6;
       a5 \<leftarrow> NewAnimatedText 20;
       let row = \<lparr>Flight = flight, StatusAnim = a0, FlightNumAnim = a1, TimeAnim = a2,
                  DestinationAnim = a3, GateAnim = a4, RemarksAnim = a5\<rparr>;
       row' \<leftarrow> (case flight of
                  None \<Rightarrow> Some row
                | Some p \<Rightarrow> do { f \<leftarrow> deref h p; update_fields clk f row });
       Some (length (rows h), h\<lparr>rows := rows h @ [row']\<rparr>)
     }"

definition FlightRow_Update ::
  "(nat \<Rightarrow> nat \<Rightarrow> Instant) \<Rightarrow> nat \<Rightarrow> FlightPtr \<Rightarrow> Heap \<Rightarrow> Heap option" where
  "FlightRow_Update clk r flight h =
     do {
       fr \<leftarrow> lookup_row h r;
       f \<leftarrow> deref h flight;
       fr' \<leftarrow> update_fields clk f (fr\<lparr>Flight := Some flight\<rparr>);
       Some (h\<lparr>rows := (rows h)[r := fr']\<rparr>)
     }"

definition tick_fields :: "(nat \<Rightarrow> nat \<Rightarrow> Instant) \<Rightarrow> FlightRow \<Rightarrow> FlightRow" where
  "tick_fields clk fr =
     fr\<lparr>StatusAnim := Tick (clk 0) (StatusAnim fr),
        FlightNumAnim := Tick (clk 1) (FlightNumAnim fr),
        TimeAnim := Tick (clk 2) (TimeAnim fr),
        DestinationAnim := Tick (clk 3) (DestinationAnim fr),
        GateAnim := Tick (clk 4) (GateAnim fr),
        RemarksAnim := Tick (clk 5) (RemarksAnim fr)\<rparr>"

definition FlightRow_Tick :: "(nat \<Rightarrow> nat \<Rightarrow> Instant) \<Rightarrow> nat \<Rightarrow> Heap \<Rightarrow> Heap option" where
  "FlightRow_Tick clk r h =
     do {
       fr \<leftarrow> lookup_row h r;
       Some (h\<lparr>rows := (rows h)[r := tick_fields clk fr]\<rparr>)
     }"

text \<open>
  styles.go builds its styles from lipgloss, which is not part of the repository: a style
  is the function its \<^verbatim>\<open>Render\<close> method computes.
\<close>

record SplitFlapStyles =
  Background :: "string \<Rightarrow> string"
  Text :: "string \<Rightarrow> string"
  Header :: "string \<Rightarrow> string"
  StatusLight :: "string \<Rightarrow> string \<Rightarrow> string"
  AirportLabel :: "string \<Rightarrow> string"
  PageInfo :: "string \<Rightarrow> string"
  ErrorStyle :: "string \<Rightarrow> string"

definition FlightRow_Render :: "SplitFlapStyles \<Rightarrow> Heap \<Rightarrow> nat \<Rightarrow> string option" where
  "FlightRow_Render styles h r =
     do {
       fr \<leftarrow> lookup_row h r;
       (case Flight fr of
          None \<Rightarrow> Some (Text styles (replicate 68 CHR '' ''))
        | Some p \<Rightarrow>
            do {
              f \<leftarrow> deref h p;
              statusText \<leftarrow> Render (StatusAnim fr);
              flightNum \<leftarrow> Render (FlightNumAnim fr);
              timeStr \<leftarrow> Render (TimeAnim fr);
              destination \<leftarrow> Render (DestinationAnim fr);
              gate \<leftarrow> Render (GateAnim fr);
              remarks \<leftarrow> Render (RemarksAnim fr);
              Some (StatusLight styles (GetStatusColor f) statusText @ '' '' @
                    Text styles flightNum @ '' '' @ Text styles timeStr @ '' '' @
                    Text styles destination @ '' '' @ Text styles gate @ '' '' @
                    Text styles remarks)
            })
     }"

section \<open>board.go\<close>

text \<open>\<open>Flights\<close> is a \<^verbatim>\<open>[]*FlightRow\<close>: the addresses of the rows, in display order.\<close>

record Board =
  Flights :: "nat list"
  CurrentPage :: int
  TotalPages :: int
  AirportCode :: string
  AirportTZ :: "Location option"
  FlightsPerPage :: int
  Error :: string
  Styles :: SplitFlapStyles

text \<open>\<open>styles\<close> stands for the result of \<^verbatim>\<open>NewSplitFlapStyles()\<close>.\<close>

definition NewBoard :: "SplitFlapStyles \<Rightarrow> string \<Rightarrow> Location option \<Rightarrow> int \<Rightarrow> Board" where
  "NewBoard styles airportCode airportTZ flightsPerPage =
     \<lparr>Flights = [], CurrentPage = 0, TotalPages = 1, AirportCode = airportCode,
      AirportTZ = airportTZ, FlightsPerPage = flightsPerPage, Error = [], Styles = styles\<rparr>"

text \<open>The body of the first loop of \<^verbatim>\<open>UpdateFlights\<close>, on one element of the slice.\<close>

definition convert_flight :: "Location option \<Rightarrow> Flight \<Rightarrow> Flight" where
  "convert_flight tz f =
     (case tz of
        None \<Rightarrow> f
      | Some l \<Rightarrow>
          (let f1 = f\<lparr>ScheduledDeparture := In (ScheduledDeparture f) l\<rparr>
           in case EstimatedDeparture f1 of
                None \<Rightarrow> f1
              | Some e \<Rightarrow>
                  (let localEst = In e l;
                       f2 = f1\<lparr>EstimatedDeparture := Some localEst\<rparr>
                   in if Status f2 = StatusDelayed
                      then f2\<lparr>Remarks := ''Delayed EST: '' @ Format_1504 localEst\<rparr>
                      else f2)))"

text \<open>The \<^verbatim>\<open>less\<close> function handed to \<^verbatim>\<open>sort.Slice\<close>.\<close>

definition less_departure :: "Flight \<Rightarrow> Flight \<Rightarrow> bool" where
  "less_departure a b = Before (ScheduledDeparture a) (ScheduledDeparture b)"

text \<open>
  \<^verbatim>\<open>sort.Slice\<close> belongs to Go's standard library. The board takes the sorting function as
  a parameter \<open>srt\<close>; what the library documents of it is that the result is a
  rearrangement of the slice in which no element is \<^verbatim>\<open>less\<close> than an earlier one, and
  that the sort is not guaranteed to be stable.
\<close>

definition sort_Slice_contract :: "(Flight list \<Rightarrow> Flight list) \<Rightarrow> bool" where
  "sort_Slice_contract srt =
     (\<forall>xs. mset (srt xs) = mset xs \<and> sorted_wrt (\<lambda>a b. \<not> less_departure b a) (srt xs))"

text \<open>The loop that builds \<^verbatim>\<open>existingMap\<close>: a later row with the same key replaces an earlier one.\<close>

fun existingMap_loop :: "Heap \<Rightarrow> nat list \<Rightarrow> (string \<rightharpoonup> nat) \<Rightarrow> (string \<rightharpoonup> nat) option" where
  "existingMap_loop h [] m = Some m"
| "existingMap_loop h (r # rs) m =
     do {
       row \<leftarrow> lookup_row h r;
       (case Flight row of
          None \<Rightarrow> existingMap_loop h rs m
        | Some p \<Rightarrow> do { f \<leftarrow> deref h p; existingMap_loop h rs (m(FlightNumber f \<mapsto> r)) })
     }"

text \<open>
  The loop that updates or creates the rows, over the indices of the slice \<open>sid\<close>.
  \<open>clk i\<close> are the clock readings of iteration \<open>i\<close>.
\<close>

fun rows_loop ::
  "(nat \<Rightarrow> nat \<Rightarrow> nat \<Rightarrow> Instant) \<Rightarrow> nat \<Rightarrow> (string \<rightharpoonup> nat) \<Rightarrow> nat list \<Rightarrow> nat list \<Rightarrow> Heap
   \<Rightarrow> (nat list \<times> Heap) option" where
  "rows_loop clk sid existingMap [] newRows h = Some (newRows, h)"
| "rows_loop clk sid existingMap (i # is) newRows h =
     do {
       flight \<leftarrow> deref h (sid, i);
       (case existingMap (FlightNumber flight) of
          Some existingRow \<Rightarrow>
            do {
              h' \<leftarrow> FlightRow_Update (clk i) existingRow (sid, i) h;
              rows_loop clk sid existingMap is (newRows @ [existingRow]) h'
            }
        | None \<Rightarrow>
            do {
              (row, h') \<leftarrow> NewFlightRow (clk i) (Some (sid, i)) h;
              rows_loop clk sid existingMap is (newRows @ [row]) h'
            })
     }"

definition updatePagination :: "Board \<Rightarrow> Board" where
  "updatePagination b =
     (let flightsPerPage = (if FlightsPerPage b \<le> 0 then 10 else FlightsPerPage b);
          totalFlights = int (length (Flights b))
      in if totalFlights = 0 then b\<lparr>TotalPages := 1, CurrentPage := 0\<rparr>
         else
           (let b1 = b\<lparr>TotalPages := (totalFlights + flightsPerPage - 1) sdiv flightsPerPage\<rparr>;
                b2 = (if TotalPages b1 \<le> CurrentPage b1
                      then b1\<lparr>CurrentPage := TotalPages b1 - 1\<rparr> else b1)
            in if CurrentPage b2 < 0 then b2\<lparr>CurrentPage := 0\<rparr> else b2))"

text \<open>
  \<^verbatim>\<open>UpdateFlights\<close> on the slice \<open>sid\<close> of the store: the slice is converted and sorted
  where it stands, and the rows point into it.
\<close>

definition UpdateFlights ::
  "(Flight list \<Rightarrow> Flight list) \<Rightarrow> (nat \<Rightarrow> nat \<Rightarrow> nat \<Rightarrow> Instant) \<Rightarrow> nat \<Rightarrow> Board \<Rightarrow> Heap
   \<Rightarrow> (Board \<times> Heap) option" where
  "UpdateFlights srt clk sid b h =
     (let converted = map (convert_flight (AirportTZ b)) (slices h sid);
          sorted = srt converted;
          h1 = h\<lparr>slices := (slices h)(sid := sorted)\<rparr>
      in do {
           existingMap \<leftarrow> existingMap_loop h1 (Flights b) Map.empty;
           (newRows, h2) \<leftarrow> rows_loop clk sid existingMap [0..<length sorted] [] h1;
           Some (updatePagination (b\<lparr>Flights := newRows\<rparr>), h2)
         })"

text \<open>\<^verbatim>\<open>%\<close> panics on a zero divisor.\<close>

definition NextPage :: "Board \<Rightarrow> Board option" where
  "NextPage b =
     (let b1 = updatePagination b
      in if TotalPages b1 = 0 then None
         else Some (b1\<lparr>CurrentPage := (CurrentPage b1 + 1) smod TotalPages b1\<rparr>))"

text \<open>The loop that fills the tail of the page with \<^verbatim>\<open>NewFlightRow(nil)\<close>.\<close>

fun fill_loop :: "nat \<Rightarrow> nat list \<Rightarrow> Heap \<Rightarrow> (nat list \<times> Heap) option" where
  "fill_loop 0 result h = Some (result, h)"
| "fill_loop (Suc n) result h =
     do {
       (row, h') \<leftarrow> NewFlightRow (\<lambda>_ _. 0) None h;
       fill_loop n (result @ [row]) h'
     }"

text \<open>
  \<^verbatim>\<open>GetCurrentPageFlights\<close>: \<^verbatim>\<open>b.Flights[start:actualEnd]\<close> panics on a negative \<open>start\<close>.
  The filler rows are allocated in the store.
\<close>

definition GetCurrentPageFlights :: "Board \<Rightarrow> Heap \<Rightarrow> (nat list \<times> Heap) option" where
  "GetCurrentPageFlights b h =
     (let flightsPerPage = (if FlightsPerPage b \<le> 0 then 10 else FlightsPerPage b);
          start = CurrentPage b * flightsPerPage;
          end = start + flightsPerPage;
          n = int (length (Flights b));
          actualEnd = (if n \<le> start then start else if n < end then n else end)
      in do {
           copied \<leftarrow> (if start < n
                      then (if 0 \<le> start \<and> start \<le> actualEnd \<and> actualEnd \<le> n
                            then Some (take (nat (actualEnd - start)) (drop (nat start) (Flights b)))
                            else None)
                      else Some []);
           let copyCount = (if start < n then actualEnd - start else 0);
           fill_loop (nat (flightsPerPage - copyCount)) copied h
         })"

fun Board_Tick_loop ::
  "(nat \<Rightarrow> nat \<Rightarrow> nat \<Rightarrow> Instant) \<Rightarrow> (nat \<times> nat) list \<Rightarrow> Heap \<Rightarrow> Heap option" where
  "Board_Tick_loop clk [] h = Some h"
| "Board_Tick_loop clk ((i, r) # rest) h =
     do { h' \<leftarrow> FlightRow_Tick (clk i) r h; Board_Tick_loop clk rest h' }"

definition Board_Tick :: "(nat \<Rightarrow> nat \<Rightarrow> nat \<Rightarrow> Instant) \<Rightarrow> Board \<Rightarrow> Heap \<Rightarrow> Heap option" where
  "Board_Tick clk b h = Board_Tick_loop clk (enumerate 0 (Flights b)) h"

text \<open>\<^verbatim>\<open>%d\<close> and \<^verbatim>\<open>%-Ns\<close> of \<^verbatim>\<open>fmt.Sprintf\<close>.\<close>

fun nat_digits :: "nat \<Rightarrow> string" where
  "nat_digits n =
     (if n < 10 then [char_of (48 + n)] else nat_digits (n div 10) @ [char_of (48 + n mod 10)])"

definition Itoa :: "int \<Rightarrow> string" where
  "Itoa k = (if k < 0 then CHR ''-'' # nat_digits (nat (- k)) else nat_digits (nat k))"

definition pad_right :: "nat \<Rightarrow> string \<Rightarrow> string" where
  "pad_right n s = s @ replicate (n - length s) CHR '' ''"

definition renderAirportHeader :: "Board \<Rightarrow> string" where
  "renderAirportHeader b = AirportLabel (Styles b) (''DEPARTURES - '' @ AirportCode b)"

definition renderHeader :: "Board \<Rightarrow> string" where
  "renderHeader b =
     Header (Styles b) ''S'' @ '' '' @ Header (Styles b) (pad_right 8 ''FLIGHT'') @ '' '' @
     Header (Styles b) (pad_right 8 ''TIME'') @ '' '' @
     Header (Styles b) (pad_right 20 ''DESTINATION'') @ '' '' @
     Header (Styles b) (pad_right 6 ''GATE'') @ '' '' @
     Header (Styles b) (pad_right 20 ''REMARKS'')"

definition renderPageInfo :: "Board \<Rightarrow> string" where
  "renderPageInfo b =
     (if TotalPages b \<le> 1 then []
      else
        (let totalFlights = int (length (Flights b));
             flightsPerPage = (if FlightsPerPage b \<le> 0 then 10 else FlightsPerPage b);
             start = CurrentPage b * flightsPerPage + 1;
             end0 = (CurrentPage b + 1) * flightsPerPage;
             end = (if totalFlights < end0 then totalFlights else end0)
         in PageInfo (Styles b)
              (''Page '' @ Itoa (CurrentPage b + 1) @ ''/'' @ Itoa (TotalPages b) @ '' ('' @
               Itoa start @ ''-'' @ Itoa end @ '' of '' @ Itoa totalFlights @ '')'')))"

text \<open>
  The sections \<^verbatim>\<open>Render\<close> collects, top to bottom. The filler rows of the page are
  allocated for this call only.
\<close>

definition Render_sections :: "Board \<Rightarrow> Heap \<Rightarrow> string list option" where
  "Render_sections b h =
     do {
       (pageFlights, h') \<leftarrow> GetCurrentPageFlights b h;
       rowStrs \<leftarrow> those (map (FlightRow_Render (Styles b) h') pageFlights);
       Some ([renderAirportHeader b] @
             (if Error b \<noteq> [] then [ErrorStyle (Styles b) (''ERROR: '' @ Error b)] else []) @
             [renderHeader b] @ rowStrs @ [renderPageInfo b])
     }"

text \<open>\<open>join\<close> stands for \<^verbatim>\<open>lipgloss.JoinVertical(lipgloss.Left, ...)\<close>.\<close>

definition Board_Render :: "(string list \<Rightarrow> string) \<Rightarrow> Board \<Rightarrow> Heap \<Rightarrow> string option" where
  "Board_Render join b h = map_option (\<lambda>sections. Background (Styles b) (join sections)) (Render_sections b h)"

definition SetAirport :: "string \<Rightarrow> Location option \<Rightarrow> Board \<Rightarrow> Board" where
  "SetAirport airportCode airportTZ b =
     b\<lparr>AirportCode := airportCode, AirportTZ := airportTZ, CurrentPage := 0\<rparr>"

definition SetFlightsPerPage :: "int \<Rightarrow> Board \<Rightarrow> Board" where
  "SetFlightsPerPage flightsPerPage b = b\<lparr>FlightsPerPage := flightsPerPage\<rparr>"

section \<open>main.go\<close>

text \<open>
  The messages of the data fetch and of the timers. A \<^verbatim>\<open>flightsMsg\<close> carries the slice
  of flights (its identifier in the store) and the error (\<open>None\<close> is nil, otherwise the
  text of \<^verbatim>\<open>err.Error()\<close>).
\<close>

datatype Msg =
  flightsMsg nat "string option"
| errMsg string
| tickPageRotationMsg
| tickAnimationMsg

record model =
  board :: Board
  airportCode :: string
  loading :: bool
  err :: "string option"
  inputMode :: bool
  airportInput :: string

text \<open>
  \<^verbatim>\<open>model.Update\<close> on these messages (the commands it returns only re-arm the timers).
  The board is reached through a pointer, so its change is part of the result.
\<close>

definition model_Update ::
  "(Flight list \<Rightarrow> Flight list) \<Rightarrow> (nat \<Rightarrow> nat \<Rightarrow> nat \<Rightarrow> Instant) \<Rightarrow> Msg \<Rightarrow> model \<Rightarrow> Heap
   \<Rightarrow> (model \<times> Heap) option" where
  "model_Update srt clk msg m h =
     (case msg of
        errMsg e \<Rightarrow> Some (m\<lparr>err := Some e, board := (board m)\<lparr>Error := e\<rparr>, loading := False\<rparr>, h)
      | flightsMsg flights e \<Rightarrow>
          (let m1 = m\<lparr>loading := False\<rparr>
           in case e of
                Some text \<Rightarrow> Some (m1\<lparr>err := Some text, board := (board m1)\<lparr>Error := text\<rparr>\<rparr>, h)
              | None \<Rightarrow>
                  do {
                    (b', h') \<leftarrow> UpdateFlights srt clk flights ((board m1)\<lparr>Error := []\<rparr>) h;
                    Some (m1\<lparr>board := b'\<rparr>, h')
                  })
      | tickPageRotationMsg \<Rightarrow>
          do { b' \<leftarrow> NextPage (board m); Some (m\<lparr>board := b'\<rparr>, h) }
      | tickAnimationMsg \<Rightarrow>
          do { h' \<leftarrow> Board_Tick clk (board m) h; Some (m, h') })"

section \<open>Well-formed animated texts and runs of operations\<close>

text \<open>
  What \<^verbatim>\<open>NewAnimatedText\<close> establishes and every method keeps: the slice of cells has
  \<open>MaxLength\<close> elements.
\<close>

definition wf_text :: "AnimatedText \<Rightarrow> bool" where
  "wf_text fld = (MaxLength fld = int (length (Chars fld)))"

definition normalized :: "nat \<Rightarrow> string \<Rightarrow> string" where
  "normalized n s = take n s @ replicate (n - length s) CHR '' ''"

definition updated_chars ::
  "(nat \<Rightarrow> Instant) \<Rightarrow> string \<Rightarrow> string \<Rightarrow> CharAnimation option list \<Rightarrow> CharAnimation option list" where
  "updated_chars clk old new cs =
     map (\<lambda>i. Some (update_char (clk i) (char_at old i) (char_at new i) (cs ! i))) [0..<length cs]"

text \<open>A sequence of \<^verbatim>\<open>Update\<close> and \<^verbatim>\<open>Tick\<close> calls on one animated text.\<close>

datatype TextOp = OpUpdate "nat \<Rightarrow> Instant" string | OpTick "nat \<Rightarrow> Instant"

fun run_ops :: "TextOp list \<Rightarrow> AnimatedText \<Rightarrow> AnimatedText option" where
  "run_ops [] fld = Some fld"
| "run_ops (OpUpdate clk text # ops) fld = do { fld' \<leftarrow> Update clk text fld; run_ops ops fld' }"
| "run_ops (OpTick clk # ops) fld = run_ops ops (Tick clk fld)"

section \<open>Pagination\<close>

text \<open>
  The page size in force (the fallback 10 for a non-positive setting), the number of rows, and
  the invariant of the specification: \<open>totalPages = max(1, ceil(rowCount / pageSize))\<close> and
  \<open>0 \<le> currentPageIndex < totalPages\<close>.
\<close>

definition pageSize :: "Board \<Rightarrow> int" where
  "pageSize b = (if FlightsPerPage b \<le> 0 then 10 else FlightsPerPage b)"

definition rowCount :: "Board \<Rightarrow> int" where
  "rowCount b = int (length (Flights b))"

definition pagination_inv :: "Board \<Rightarrow> bool" where
  "pagination_inv b =
     (TotalPages b = max 1 \<lceil>real_of_int (rowCount b) / real_of_int (pageSize b)\<rceil> \<and>
      0 \<le> CurrentPage b \<and> CurrentPage b < TotalPages b)"

text \<open>\<open>n\<close> calls of \<^verbatim>\<open>NextPage\<close> in a row.\<close>

fun NextPage_times :: "nat \<Rightarrow> Board \<Rightarrow> Board option" where
  "NextPage_times 0 b = Some b"
| "NextPage_times (Suc n) b = do { b' \<leftarrow> NextPage b; NextPage_times n b' }"

text \<open>
  What \<^verbatim>\<open>NewAnimatedText(n)\<close> and \<^verbatim>\<open>NewFlightRow(nil)\<close> return: a text of \<open>n\<close> nil cells, and
  the filler row of the six empty fields.
\<close>

definition empty_text :: "nat \<Rightarrow> AnimatedText" where
  "empty_text n = \<lparr>OldText = [], NewText = [], Chars = replicate n None, MaxLength = int n\<rparr>"

definition filler_row :: FlightRow where
  "filler_row = \<lparr>Flight = None, StatusAnim = empty_text 1, FlightNumAnim = empty_text 8,
                  TimeAnim = empty_text 8, DestinationAnim = empty_text 20,
                  GateAnim = empty_text 6, RemarksAnim = empty_text 20\<rparr>"

text \<open>Example values: styles that add nothing, and a board of three rows on its second page.\<close>

definition plain_styles :: SplitFlapStyles where
  "plain_styles = \<lparr>Background = (\<lambda>s. s), Text = (\<lambda>s. s), Header = (\<lambda>s. s),
                    StatusLight = (\<lambda>color s. s), AirportLabel = (\<lambda>s. s), PageInfo = (\<lambda>s. s),
                    ErrorStyle = (\<lambda>s. s)\<rparr>"

definition example_board :: Board where
  "example_board = \<lparr>Flights = [0, 1, 2], CurrentPage = 1, TotalPages = 2, AirportCode = ''JFK'',
                     AirportTZ = None, FlightsPerPage = 2, Error = [], Styles = plain_styles\<rparr>"

section \<open>Well-formed stores\<close>

text \<open>
  What the constructors establish and every method keeps. A field of a row has its fixed
  width; a pointer to a flight addresses an element of its slice; the board's rows are
  rows of the store.
\<close>

definition wf_field :: "nat \<Rightarrow> AnimatedText \<Rightarrow> bool" where
  "wf_field n fld = (MaxLength fld = int n \<and> length (Chars fld) = n)"

definition wf_row :: "FlightRow \<Rightarrow> bool" where
  "wf_row fr =
     (wf_field 1 (StatusAnim fr) \<and> wf_field 8 (FlightNumAnim fr) \<and> wf_field 8 (TimeAnim fr) \<and>
      wf_field 20 (DestinationAnim fr) \<and> wf_field 6 (GateAnim fr) \<and>
      wf_field 20 (RemarksAnim fr))"

definition valid_ptr :: "Heap \<Rightarrow> FlightPtr option \<Rightarrow> bool" where
  "valid_ptr h p = (case p of None \<Rightarrow> True | Some q \<Rightarrow> snd q < length (slices h (fst q)))"

definition wf_heap :: "Heap \<Rightarrow> bool" where
  "wf_heap h = list_all (\<lambda>fr. wf_row fr \<and> valid_ptr h (Flight fr)) (rows h)"

definition wf_board :: "Board \<Rightarrow> Heap \<Rightarrow> bool" where
  "wf_board b h = (wf_heap h \<and> list_all (\<lambda>r. r < length (rows h)) (Flights b))"

text \<open>
  The results of \<^verbatim>\<open>AnimatedText.Update\<close> and of \<^verbatim>\<open>FlightRow.Update\<close> where they do not panic
  (on well-formed fields), as total functions.
\<close>

definition updated_text :: "(nat \<Rightarrow> Instant) \<Rightarrow> string \<Rightarrow> AnimatedText \<Rightarrow> AnimatedText" where
  "updated_text clk s fld =
     fld\<lparr>NewText := normalized (length (Chars fld)) s,
        Chars := updated_chars clk (normalized (length (Chars fld)) (OldText fld))
                   (normalized (length (Chars fld)) s) (Chars fld),
        OldText := normalized (length (Chars fld)) s\<rparr>"

definition updated_row ::
  "(nat \<Rightarrow> nat \<Rightarrow> Instant) \<Rightarrow> Flight \<Rightarrow> FlightPtr \<Rightarrow> FlightRow \<Rightarrow> FlightRow" where
  "updated_row clk f p fr =
     \<lparr>Flight = Some p,
      StatusAnim = updated_text (clk 0) (getStatusChar (Status f)) (StatusAnim fr),
      FlightNumAnim = updated_text (clk 1) (truncate_string (FlightNumber f) 8) (FlightNumAnim fr),
      TimeAnim = updated_text (clk 2) (Format_1504 (ScheduledDeparture f)) (TimeAnim fr),
      DestinationAnim = updated_text (clk 3) (truncate_string (GetDestination f) 20) (DestinationAnim fr),
      GateAnim = updated_text (clk 4) (gate_text f) (GateAnim fr),
      RemarksAnim = updated_text (clk 5) (truncate_string (Remarks f) 20) (RemarksAnim fr)\<rparr>"

text \<open>
  One iteration of the loop over the flights, and the whole loop, where they do not panic.
\<close>

definition row_step ::
  "(nat \<Rightarrow> nat \<Rightarrow> Instant) \<Rightarrow> nat \<Rightarrow> (string \<rightharpoonup> nat) \<Rightarrow> nat \<Rightarrow> Heap \<Rightarrow> nat \<times> Heap" where
  "row_step clk sid em i h =
     (let f = slices h sid ! i
      in case em (FlightNumber f) of
           Some r \<Rightarrow> (r, h\<lparr>rows := (rows h)[r := updated_row clk f (sid, i) (rows h ! r)]\<rparr>)
         | None \<Rightarrow> (length (rows h), h\<lparr>rows := rows h @ [updated_row clk f (sid, i) filler_row]\<rparr>))"

fun rows_result ::
  "(nat \<Rightarrow> nat \<Rightarrow> nat \<Rightarrow> Instant) \<Rightarrow> nat \<Rightarrow> (string \<rightharpoonup> nat) \<Rightarrow> nat list \<Rightarrow> nat list \<Rightarrow> Heap
   \<Rightarrow> nat list \<times> Heap" where
  "rows_result clk sid em [] newRows h = (newRows, h)"
| "rows_result clk sid em (i # is) newRows h =
     rows_result clk sid em is (newRows @ [fst (row_step (clk i) sid em i h)])
       (snd (row_step (clk i) sid em i h))"

definition loop_ok :: "(string \<rightharpoonup> nat) \<Rightarrow> nat \<Rightarrow> nat list \<Rightarrow> Heap \<Rightarrow> bool" where
  "loop_ok em sid is h =
     (wf_heap h \<and> (\<forall>k r. em k = Some r \<longrightarrow> r < length (rows h)) \<and>
      (\<forall>i \<in> set is. i < length (slices h sid)))"

text \<open>The flight a row shows (through its pointer) and its identity key.\<close>

definition row_flight :: "Heap \<Rightarrow> nat \<Rightarrow> Flight option" where
  "row_flight h r = (case Flight (rows h ! r) of None \<Rightarrow> None | Some p \<Rightarrow> deref h p)"

definition row_key :: "Heap \<Rightarrow> nat \<Rightarrow> string option" where
  "row_key h r = map_option FlightNumber (row_flight h r)"

text \<open>The effect of iteration \<open>i\<close> on the existing row \<open>r\<close>.\<close>

definition hit_update ::
  "(nat \<Rightarrow> nat \<Rightarrow> nat \<Rightarrow> Instant) \<Rightarrow> nat \<Rightarrow> (string \<rightharpoonup> nat) \<Rightarrow> Flight list \<Rightarrow> nat \<Rightarrow> nat
   \<Rightarrow> FlightRow \<Rightarrow> FlightRow" where
  "hit_update clk sid em xs r i fr =
     (if em (FlightNumber (xs ! i)) = Some r then updated_row (clk i) (xs ! i) (sid, i) fr else fr)"

text \<open>
  \<^verbatim>\<open>existingMap\<close> as a fold over the board's rows; the slice after conversion and sorting; the
  store with that slice in place; the new row list and store of \<^verbatim>\<open>UpdateFlights\<close>.
\<close>

definition em_step :: "Heap \<Rightarrow> nat \<Rightarrow> (string \<rightharpoonup> nat) \<Rightarrow> (string \<rightharpoonup> nat)" where
  "em_step h r m = (case row_key h r of None \<Rightarrow> m | Some k \<Rightarrow> m(k \<mapsto> r))"

definition existing_rows :: "Board \<Rightarrow> Heap \<Rightarrow> (string \<rightharpoonup> nat)" where
  "existing_rows b h = fold (em_step h) (Flights b) Map.empty"

definition sorted_slice :: "(Flight list \<Rightarrow> Flight list) \<Rightarrow> Board \<Rightarrow> Heap \<Rightarrow> nat \<Rightarrow> Flight list" where
  "sorted_slice srt b h sid = srt (map (convert_flight (AirportTZ b)) (slices h sid))"

definition with_slice :: "Heap \<Rightarrow> nat \<Rightarrow> Flight list \<Rightarrow> Heap" where
  "with_slice h sid xs = h\<lparr>slices := (slices h)(sid := xs)\<rparr>"

definition UpdateFlights_result ::
  "(Flight list \<Rightarrow> Flight list) \<Rightarrow> (nat \<Rightarrow> nat \<Rightarrow> nat \<Rightarrow> Instant) \<Rightarrow> nat \<Rightarrow> Board \<Rightarrow> Heap
   \<Rightarrow> nat list \<times> Heap" where
  "UpdateFlights_result srt clk sid b h =
     (let h1 = with_slice h sid (sorted_slice srt b h sid)
      in rows_result clk sid (existing_rows b h1) [0..<length (sorted_slice srt b h sid)] [] h1)"

text \<open>
  Two functions that meet the contract of \<^verbatim>\<open>sort.Slice\<close>: an insertion sort, which keeps
  flights of equal time in input order, and one that reverses them. Then example flights,
  a store holding one slice of flights, and a new board.
\<close>

definition departure_key :: "Flight \<Rightarrow> int" where
  "departure_key f = unixNano (ScheduledDeparture f)"

definition stable_sort :: "Flight list \<Rightarrow> Flight list" where
  "stable_sort xs = sort_key departure_key xs"


definition utc :: Location where
  "utc = (\<lambda>_. 0)"

definition example_flight :: "string \<Rightarrow> int \<Rightarrow> Flight" where
  "example_flight num t =
     \<lparr>Status = StatusOnTime, AirlineCode = ''BA'', AirlineName = ''BAW'', FlightNumber = num,
      DestinationCode = ''LHR'', DestinationCity = ''London'', Gate = ''A12'',
      Remarks = ''On Time'', ScheduledDeparture = \<lparr>unixNano = t, zone = utc\<rparr>,
      EstimatedDeparture = None\<rparr>"


definition fresh_board :: Board where
  "fresh_board = NewBoard plain_styles ''JFK'' (Some utc) 2"



text \<open>
  A field shows a text when old and new text are that text at the width of the field and
  every cell has been set; a row shows a flight when its six fields show the six texts
  \<^verbatim>\<open>FlightRow.Update\<close> computes from it. Two flights are displayed alike but for the gate
  when the other five texts agree. The incoming slice is fresh when no row of the board
  points into it.
\<close>

definition shows_text :: "AnimatedText \<Rightarrow> string \<Rightarrow> bool" where
  "shows_text fld s =
     (OldText fld = normalized (length (Chars fld)) s \<and> NewText fld = OldText fld \<and>
      list_all (\<lambda>cell. cell \<noteq> None) (Chars fld))"

definition row_shows :: "FlightRow \<Rightarrow> Flight \<Rightarrow> bool" where
  "row_shows fr g =
     (shows_text (StatusAnim fr) (getStatusChar (Status g)) \<and>
      shows_text (FlightNumAnim fr) (truncate_string (FlightNumber g) 8) \<and>
      shows_text (TimeAnim fr) (Format_1504 (ScheduledDeparture g)) \<and>
      shows_text (DestinationAnim fr) (truncate_string (GetDestination g) 20) \<and>
      shows_text (GateAnim fr) (gate_text g) \<and>
      shows_text (RemarksAnim fr) (truncate_string (Remarks g) 20))"

definition same_display_but_gate :: "Flight \<Rightarrow> Flight \<Rightarrow> bool" where
  "same_display_but_gate g f =
     (getStatusChar (Status g) = getStatusChar (Status f) \<and>
      truncate_string (FlightNumber g) 8 = truncate_string (FlightNumber f) 8 \<and>
      Format_1504 (ScheduledDeparture g) = Format_1504 (ScheduledDeparture f) \<and>
      truncate_string (GetDestination g) 20 = truncate_string (GetDestination f) 20 \<and>
      truncate_string (Remarks g) 20 = truncate_string (Remarks f) 20)"

definition fresh_slice :: "Board \<Rightarrow> Heap \<Rightarrow> nat \<Rightarrow> bool" where
  "fresh_slice b h sid =
     list_all (\<lambda>r. case Flight (rows h ! r) of None \<Rightarrow> True | Some p \<Rightarrow> fst p \<noteq> sid) (Flights b)"

text \<open>
  A row for BA114 at gate A12 after two ticks, 400 and 800 milliseconds after its update; a
  store with that row, the slice it points into, and an incoming slice where the gate is B7.
\<close>

definition settled_row :: FlightRow where
  "settled_row =
     tick_fields (\<lambda>_ _. 800000000)
       (tick_fields (\<lambda>_ _. 400000000)
          (updated_row (\<lambda>_ _. 0) (example_flight ''BA114'' 1000) (1, 0) filler_row))"

definition gate_change_heap :: Heap where
  "gate_change_heap =
     \<lparr>slices = (\<lambda>_. [])(0 := [(example_flight ''BA114'' 1000)\<lparr>Gate := ''B7''\<rparr>],
                          1 := [example_flight ''BA114'' 1000]),
      rows = [settled_row]\<rparr>"

definition gate_change_board :: Board where
  "gate_change_board = fresh_board\<lparr>Flights := [0]\<rparr>"

text \<open>A model that waits for the answer of a fetch, with the board of the example above.\<close>

definition waiting_model :: model where
  "waiting_model = \<lparr>board = gate_change_board, airportCode = ''JFK'', loading = True, err = None,
                     inputMode = False, airportInput = []\<rparr>"

chapter \<open>Properties\<close>

section \<open>Animated texts\<close>

lemma length_normalized: "length (normalized n s) = n"
  by (simp add: normalized_def)

lemma pad_or_truncate_normalized:
  "0 \<le> n \<Longrightarrow> pad_or_truncate n s = Some (normalized (nat n) s)"
  by (auto simp: pad_or_truncate_def normalized_def nat_diff_distrib)

lemma pad_or_truncate_negative: "n < 0 \<Longrightarrow> pad_or_truncate n s = None"
  by (simp add: pad_or_truncate_def)

lemma update_loop_total:
  "\<forall>i \<in> set is. i < length cs \<Longrightarrow>
   \<exists>cs'. update_loop clk old new is cs = Some cs' \<and> length cs' = length cs"
proof (induction "is" arbitrary: cs)
  case Nil
  then show ?case by simp
next
  case (Cons i "is")
  let ?cs1 = "cs[i := Some (update_char (clk i) (char_at old i) (char_at new i) (cs ! i))]"
  from Cons.prems have "\<forall>k \<in> set is. k < length ?cs1" by simp
  from Cons.IH [OF this] Cons.prems show ?case by simp
qed

lemma update_loop_nth:
  "update_loop clk old new is cs = Some cs' \<Longrightarrow> distinct is \<Longrightarrow> j < length cs \<Longrightarrow>
   cs' ! j = (if j \<in> set is
              then Some (update_char (clk j) (char_at old j) (char_at new j) (cs ! j))
              else cs ! j)"
proof (induction "is" arbitrary: cs)
  case Nil
  then show ?case by simp
next
  case (Cons i "is")
  from Cons.prems(1) have i: "i < length cs" by (simp split: if_splits)
  let ?cs1 = "cs[i := Some (update_char (clk i) (char_at old i) (char_at new i) (cs ! i))]"
  from Cons.prems(1) i have run: "update_loop clk old new is ?cs1 = Some cs'" by simp
  from Cons.prems(2) have d: "distinct is" "i \<notin> set is" by simp_all
  from Cons.IH [OF run d(1)] Cons.prems(3)
  have "cs' ! j = (if j \<in> set is
              then Some (update_char (clk j) (char_at old j) (char_at new j) (?cs1 ! j))
              else ?cs1 ! j)" by simp
  then show ?case using d(2) i Cons.prems(3) by (auto simp: nth_list_update)
qed

lemma update_loop_length:
  "update_loop clk old new is cs = Some cs' \<Longrightarrow> length cs' = length cs"
  by (induction "is" arbitrary: cs) (auto split: if_splits)

lemma update_loop_all:
  "update_loop clk old new [0..<length cs] cs = Some (updated_chars clk old new cs)"
proof -
  obtain cs' where run: "update_loop clk old new [0..<length cs] cs = Some cs'"
    and len: "length cs' = length cs"
    using update_loop_total [of "[0..<length cs]" cs clk old new] by auto
  have "cs' = updated_chars clk old new cs"
  proof (rule nth_equalityI)
    show "length cs' = length (updated_chars clk old new cs)"
      by (simp add: len updated_chars_def)
  next
    fix j assume "j < length cs'"
    then have j: "j < length cs" by (simp add: len)
    from update_loop_nth [OF run _ j] j
    show "cs' ! j = updated_chars clk old new cs ! j"
      by (simp add: updated_chars_def)
  qed
  with run show ?thesis by simp
qed

lemma Update_wf:
  assumes "wf_text fld"
  shows "Update clk text fld =
           Some (fld\<lparr>NewText := normalized (length (Chars fld)) text,
                    Chars := updated_chars clk (normalized (length (Chars fld)) (OldText fld))
                               (normalized (length (Chars fld)) text) (Chars fld),
                    OldText := normalized (length (Chars fld)) text\<rparr>)"
  using assms
  by (simp add: Update_def wf_text_def pad_or_truncate_normalized update_loop_all)

lemma wf_text_Update: "wf_text fld \<Longrightarrow> Update clk text fld = Some fld' \<Longrightarrow> wf_text fld'"
  by (auto simp: Update_wf) (simp add: wf_text_def updated_chars_def)

lemma wf_text_Tick: "wf_text fld \<Longrightarrow> wf_text (Tick clk fld)"
  by (simp add: wf_text_def Tick_def)

lemma wf_text_New: "NewAnimatedText w = Some fld \<Longrightarrow> wf_text fld \<and> MaxLength fld = w \<and> 0 \<le> w"
  by (auto simp: NewAnimatedText_def wf_text_def split: if_splits)

lemma render_loop_enumerate:
  "k + length cs \<le> length result \<Longrightarrow>
   render_loop (enumerate k cs) result
     = Some (take k result @ map render_char cs @ drop (k + length cs) result)"
proof (induction cs arbitrary: k result)
  case Nil
  then show ?case by simp
next
  case (Cons c cs)
  have "render_loop (enumerate (Suc k) cs) (result[k := render_char c])
      = Some (take (Suc k) (result[k := render_char c]) @ map render_char cs
              @ drop (Suc k + length cs) (result[k := render_char c]))"
    using Cons.prems by (intro Cons.IH) simp
  moreover have "take (Suc k) (result[k := render_char c]) = take k result @ [render_char c]"
    using Cons.prems by (simp add: take_Suc_conv_app_nth)
  ultimately show ?case using Cons.prems by simp
qed

lemma Render_runes_wf: "wf_text fld \<Longrightarrow> Render_runes fld = Some (map render_char (Chars fld))"
  using render_loop_enumerate [of 0 "Chars fld" "replicate (length (Chars fld)) 0"]
  by (simp add: Render_runes_def wf_text_def)

lemma is_continuation_char_of:
  "0 \<le> k \<Longrightarrow> k < 256 \<Longrightarrow> is_continuation (char_of (k::int)) = (128 \<le> k \<and> k < 192)"
  by (simp add: is_continuation_def of_char_of)

lemma cont_byte: "is_continuation (char_of (128 + (x::int) mod 64))"
proof -
  have "0 \<le> x mod 64" "x mod 64 < 64" by simp_all
  then show ?thesis by (subst is_continuation_char_of) auto
qed

lemma lead_byte:
  "(0 \<le> k \<and> k < 128) \<or> (192 \<le> k \<and> k < 256) \<Longrightarrow> \<not> is_continuation (char_of (k::int))"
  by (subst is_continuation_char_of) auto

lemma RuneCount_EncodeRune: "RuneCount (utf8_EncodeRune r) = 1"
proof -
  consider (bad) "r < 0 \<or> 1114111 < r \<or> (55296 \<le> r \<and> r \<le> 57343)"
    | (one) "0 \<le> r" "r < 128"
    | (two) "128 \<le> r" "r < 2048"
    | (three) "2048 \<le> r" "r < 65536" "\<not> (55296 \<le> r \<and> r \<le> 57343)"
    | (four) "65536 \<le> r" "r \<le> 1114111"
    by linarith
  then show ?thesis
  proof cases
    case bad
    have "\<not> is_continuation (char_of (239::int))" by (rule lead_byte) simp
    moreover have "is_continuation (char_of (191::int))" "is_continuation (char_of (189::int))"
      by (simp_all add: is_continuation_char_of)
    ultimately show ?thesis using bad by (simp add: utf8_EncodeRune_def RuneCount_def)
  next
    case one
    then have "\<not> is_continuation (char_of r)" by (intro lead_byte) simp
    then show ?thesis using one by (simp add: utf8_EncodeRune_def RuneCount_def)
  next
    case two
    then have "2 \<le> r div 64" "r div 64 < 32" by simp_all
    then have "\<not> is_continuation (char_of (192 + r div 64))" by (intro lead_byte) simp
    then show ?thesis using two by (simp add: utf8_EncodeRune_def RuneCount_def cont_byte)
  next
    case three
    then have "0 \<le> r div 4096" "r div 4096 < 16" by simp_all
    then have "\<not> is_continuation (char_of (224 + r div 4096))" by (intro lead_byte) simp
    then show ?thesis using three by (simp add: utf8_EncodeRune_def RuneCount_def cont_byte)
  next
    case four
    then have "0 \<le> r div 262144" "r div 262144 < 5" by simp_all
    then have "\<not> is_continuation (char_of (240 + r div 262144))" by (intro lead_byte) simp
    then show ?thesis using four by (simp add: utf8_EncodeRune_def RuneCount_def cont_byte)
  qed
qed

lemma RuneCount_append: "RuneCount (xs @ ys) = RuneCount xs + RuneCount ys"
  by (simp add: RuneCount_def)

lemma RuneCount_string_of_runes: "RuneCount (string_of_runes rs) = length rs"
proof (induction rs)
  case Nil
  show ?case by (simp add: string_of_runes_def RuneCount_def)
next
  case (Cons r rs)
  have "string_of_runes (r # rs) = utf8_EncodeRune r @ string_of_runes rs"
    by (simp add: string_of_runes_def)
  then show ?case by (simp add: RuneCount_append RuneCount_EncodeRune Cons.IH)
qed

lemma length_Chars_Update:
  "wf_text fld \<Longrightarrow> Update clk text fld = Some fld' \<Longrightarrow>
   length (Chars fld') = length (Chars fld) \<and> MaxLength fld' = MaxLength fld"
  by (auto simp: Update_wf updated_chars_def)

lemma length_Chars_Tick: "length (Chars (Tick clk fld)) = length (Chars fld) \<and> MaxLength (Tick clk fld) = MaxLength fld"
  by (simp add: Tick_def)

lemma Update_total: "wf_text fld \<Longrightarrow> \<exists>fld'. Update clk text fld = Some fld'"
  by (simp add: Update_wf)

lemma run_ops_wf:
  "wf_text fld \<Longrightarrow>
   \<exists>fld'. run_ops ops fld = Some fld' \<and> wf_text fld' \<and> MaxLength fld' = MaxLength fld"
proof (induction ops arbitrary: fld)
  case Nil
  then show ?case by simp
next
  case (Cons op ops)
  show ?case
  proof (cases op)
    case (OpUpdate clk s)
    from Update_total [OF Cons.prems] obtain at1 where u: "Update clk s fld = Some at1" by blast
    from wf_text_Update [OF Cons.prems u] have w1: "wf_text at1" .
    from length_Chars_Update [OF Cons.prems u] have m: "MaxLength at1 = MaxLength fld" by simp
    from Cons.IH [OF w1] m u OpUpdate show ?thesis by simp
  next
    case (OpTick clk)
    from Cons.IH [OF wf_text_Tick [OF Cons.prems]] OpTick show ?thesis
      by (simp add: length_Chars_Tick)
  qed
qed

lemma RuneCount_Render:
  "wf_text fld \<Longrightarrow> \<exists>s. Render fld = Some s \<and> RuneCount s = length (Chars fld)"
  by (simp add: Render_def Render_runes_wf RuneCount_string_of_runes)

text \<open>
  Claim C2. An animated text built by \<^verbatim>\<open>NewAnimatedText w\<close> never panics under any
  sequence of \<^verbatim>\<open>Update\<close> and \<^verbatim>\<open>Tick\<close> calls (texts of any length, the empty sequence
  included), and afterwards \<^verbatim>\<open>Render\<close> returns a string of exactly \<open>w\<close> characters (the
  \<open>w\<close> runes of \<^verbatim>\<open>result\<close>, UTF-8 encoded), a nil cell being rendered as a blank.
\<close>

theorem Render_width:
  assumes "NewAnimatedText w = Some at0"
  shows "\<exists>fld rs. run_ops ops at0 = Some fld \<and> Render_runes fld = Some rs \<and>
           Render fld = Some (string_of_runes rs) \<and> length rs = nat w \<and>
           RuneCount (string_of_runes rs) = nat w \<and>
           (\<forall>i < nat w. Chars fld ! i = None \<longrightarrow> rs ! i = rune_of_byte CHR '' '')"
proof -
  from wf_text_New [OF assms] have w0: "wf_text at0" and m0: "MaxLength at0 = w" by simp_all
  from run_ops_wf [OF w0] obtain fld where
    run: "run_ops ops at0 = Some fld" and w: "wf_text fld" and m: "MaxLength fld = MaxLength at0"
    by blast
  let ?rs = "map render_char (Chars fld)"
  have len: "length ?rs = nat w" using w m m0 by (simp add: wf_text_def)
  have r: "Render_runes fld = Some ?rs" by (rule Render_runes_wf [OF w])
  have blank: "\<forall>i < nat w. Chars fld ! i = None \<longrightarrow> ?rs ! i = rune_of_byte CHR '' ''"
    using len by (simp add: render_char_def)
  show ?thesis
    using run r len blank
    by (intro exI [of _ fld] exI [of _ ?rs])
       (simp add: Render_def RuneCount_string_of_runes)
qed

theorem Render_width_witness:
  "NewAnimatedText 3 = Some \<lparr>OldText = [], NewText = [], Chars = [None, None, None], MaxLength = 3\<rparr> \<and>
   (\<exists>fld rs. run_ops [OpUpdate (\<lambda>_. 7) ''ABCDE'', OpTick (\<lambda>_. 9), OpUpdate (\<lambda>_. 11) []]
              \<lparr>OldText = [], NewText = [], Chars = [None, None, None], MaxLength = 3\<rparr> = Some fld \<and>
      Render_runes fld = Some rs \<and> Render fld = Some (string_of_runes rs) \<and> length rs = 3 \<and>
      RuneCount (string_of_runes rs) = 3)"
proof -
  have n: "NewAnimatedText 3 = Some \<lparr>OldText = [], NewText = [], Chars = [None, None, None], MaxLength = 3\<rparr>"
    by (simp add: NewAnimatedText_def numeral_3_eq_3)
  from Render_width [OF n, of "[OpUpdate (\<lambda>_. 7) ''ABCDE'', OpTick (\<lambda>_. 9), OpUpdate (\<lambda>_. 11) []]"]
  show ?thesis using n by auto
qed





lemma tick_char_Stable: "State c = CharStateStable \<Longrightarrow> tick_char now c = c"
  by (simp add: tick_char_def)

lemma tick_char_NewChar: "NewChar (tick_char now c) = NewChar c"
  by (simp add: tick_char_def Let_def)


lemma char_at_normalized:
  "i < n \<Longrightarrow> char_at (normalized n s) i = rune_of_byte (normalized n s ! i)"
  by (simp add: char_at_def length_normalized)

lemma rune_of_byte_inj: "rune_of_byte a = rune_of_byte b \<Longrightarrow> a = b"
  by (simp add: rune_of_byte_def)



lemma update_char_changed:
  "oldChar \<noteq> newChar \<Longrightarrow>
   update_char now oldChar newChar cell =
     (case cell of None \<Rightarrow> \<lparr>OldChar = oldChar, NewChar = newChar, State = CharStateBlinking,
                             BlinkPhase = 0, StartTime = now\<rparr>
      | Some c \<Rightarrow> c\<lparr>OldChar := oldChar, NewChar := newChar, State := CharStateBlinking,
                     BlinkPhase := 0, StartTime := now\<rparr>)"
  by (simp add: update_char_def split: option.splits)

lemma update_char_same:
  "update_char now ch ch cell =
     (case cell of None \<Rightarrow> \<lparr>OldChar = ch, NewChar = ch, State = CharStateStable,
                             BlinkPhase = 0, StartTime = 0\<rparr>
      | Some c \<Rightarrow> c)"
  by (simp add: update_char_def split: option.splits)






section \<open>The board\<close>

lemma pageSize_pos: "0 < pageSize b"
  by (simp add: pageSize_def)

lemma sdiv_nonneg: "0 \<le> a \<Longrightarrow> 0 < b \<Longrightarrow> a sdiv b = a div (b::int)"
  by (simp add: signed_divide_int_def sgn_if)

lemma smod_nonneg: "0 \<le> a \<Longrightarrow> 0 < b \<Longrightarrow> a smod b = a mod (b::int)"
  by (simp add: signed_modulo_int_def sgn_if)

lemma ceil_div:
  assumes p: "0 < (p::int)"
  shows "(n + p - 1) div p = \<lceil>real_of_int n / real_of_int p\<rceil>"
proof -
  define q where "q = (n + p - 1) div p"
  define r where "r = (n + p - 1) mod p"
  have eq: "n + p - 1 = q * p + r" by (simp add: q_def r_def)
  have r: "0 \<le> r" "r < p" using p by (simp_all add: r_def)
  have lo: "(q - 1) * p < n" using eq r by (simp add: algebra_simps)
  have hi: "n \<le> q * p" using eq r by (simp add: algebra_simps)
  have "real_of_int (q - 1) * real_of_int p < real_of_int n"
    using lo by (metis of_int_less_iff of_int_mult)
  then have a: "real_of_int q - 1 < real_of_int n / real_of_int p"
    using p by (simp add: pos_less_divide_eq)
  have "real_of_int n \<le> real_of_int q * real_of_int p"
    using hi by (metis of_int_le_iff of_int_mult)
  then have b: "real_of_int n / real_of_int p \<le> real_of_int q"
    using p by (simp add: pos_divide_le_eq)
  from a b have "\<lceil>real_of_int n / real_of_int p\<rceil> = q" by (intro ceiling_unique) simp_all
  then show ?thesis by (simp add: q_def)
qed

lemma ceil_pos:
  assumes "0 < (p::int)" "0 < n"
  shows "1 \<le> \<lceil>real_of_int n / real_of_int p\<rceil>"
proof -
  have "0 < real_of_int n / real_of_int p" using assms by simp
  then show ?thesis by (simp add: ceiling_less_iff [symmetric] flip: not_less)
qed

text \<open>What \<open>updatePagination\<close> computes, case by case.\<close>

lemma updatePagination_TotalPages:
  "TotalPages (updatePagination b) = max 1 \<lceil>real_of_int (rowCount b) / real_of_int (pageSize b)\<rceil>"
proof (cases "Flights b = []")
  case True
  then show ?thesis by (simp add: updatePagination_def rowCount_def)
next
  case False
  then have n: "0 < rowCount b" by (simp add: rowCount_def)
  have "TotalPages (updatePagination b) = (rowCount b + pageSize b - 1) sdiv pageSize b"
    using False by (simp add: updatePagination_def rowCount_def pageSize_def Let_def)
  also have "\<dots> = (rowCount b + pageSize b - 1) div pageSize b"
    using n pageSize_pos [of b] by (intro sdiv_nonneg) simp_all
  also have "\<dots> = \<lceil>real_of_int (rowCount b) / real_of_int (pageSize b)\<rceil>"
    by (rule ceil_div [OF pageSize_pos])
  finally show ?thesis using ceil_pos [OF pageSize_pos n] by simp
qed

lemma updatePagination_CurrentPage:
  "CurrentPage (updatePagination b) =
     (if TotalPages (updatePagination b) \<le> CurrentPage b then TotalPages (updatePagination b) - 1
      else if CurrentPage b < 0 then 0 else CurrentPage b)"
proof (cases "Flights b = []")
  case True
  then show ?thesis by (auto simp: updatePagination_def)
next
  case False
  have "1 \<le> TotalPages (updatePagination b)" by (simp add: updatePagination_TotalPages)
  then show ?thesis using False by (auto simp: updatePagination_def Let_def)
qed

lemma updatePagination_frame:
  "Flights (updatePagination b) = Flights b \<and> FlightsPerPage (updatePagination b) = FlightsPerPage b \<and>
   AirportCode (updatePagination b) = AirportCode b \<and> AirportTZ (updatePagination b) = AirportTZ b \<and>
   Error (updatePagination b) = Error b \<and> Styles (updatePagination b) = Styles b"
  by (simp add: updatePagination_def Let_def)


lemma updatePagination_id:
  assumes "pagination_inv b"
  shows "updatePagination b = b"
proof -
  have t: "TotalPages (updatePagination b) = TotalPages b"
    using assms by (simp add: pagination_inv_def updatePagination_TotalPages)
  from assms have r: "0 \<le> CurrentPage b" "CurrentPage b < TotalPages b"
    by (simp_all add: pagination_inv_def)
  have c: "CurrentPage (updatePagination b) = CurrentPage b"
    unfolding updatePagination_CurrentPage t using r by simp
  show ?thesis
    using t c updatePagination_frame [of b] by (intro Board.equality) (simp_all add: updatePagination_def Let_def)
qed

lemma NextPage_inv:
  assumes "pagination_inv b"
  shows "NextPage b = Some (b\<lparr>CurrentPage := (CurrentPage b + 1) mod TotalPages b\<rparr>)"
proof -
  from assms have r: "0 \<le> CurrentPage b" "CurrentPage b < TotalPages b"
    by (simp_all add: pagination_inv_def)
  then have "(CurrentPage b + 1) smod TotalPages b = (CurrentPage b + 1) mod TotalPages b"
    by (intro smod_nonneg) simp_all
  then show ?thesis using r by (simp add: NextPage_def updatePagination_id [OF assms])
qed

lemma pagination_inv_CurrentPage:
  "pagination_inv b \<Longrightarrow> 0 \<le> c \<Longrightarrow> c < TotalPages b \<Longrightarrow> pagination_inv (b\<lparr>CurrentPage := c\<rparr>)"
  by (simp add: pagination_inv_def rowCount_def pageSize_def)

lemma NextPage_times_inv:
  "pagination_inv b \<Longrightarrow>
   NextPage_times n b = Some (b\<lparr>CurrentPage := (CurrentPage b + int n) mod TotalPages b\<rparr>)"
proof (induction n arbitrary: b)
  case 0
  then have "0 \<le> CurrentPage b" "CurrentPage b < TotalPages b"
    by (simp_all add: pagination_inv_def)
  then show ?case by simp
next
  case (Suc n)
  from Suc.prems have t: "0 < TotalPages b" by (simp add: pagination_inv_def)
  let ?b1 = "b\<lparr>CurrentPage := (CurrentPage b + 1) mod TotalPages b\<rparr>"
  have inv1: "pagination_inv ?b1"
    using t by (intro pagination_inv_CurrentPage [OF Suc.prems]) simp_all
  have "NextPage_times (Suc n) b = NextPage_times n ?b1"
    by (simp add: NextPage_inv [OF Suc.prems])
  also have "\<dots> = Some (?b1\<lparr>CurrentPage := (CurrentPage ?b1 + int n) mod TotalPages ?b1\<rparr>)"
    by (rule Suc.IH [OF inv1])
  also have "(CurrentPage ?b1 + int n) mod TotalPages ?b1 = (CurrentPage b + int (Suc n)) mod TotalPages b"
  proof -
    have "((CurrentPage b + 1) mod TotalPages b + int n) mod TotalPages b
            = (CurrentPage b + 1 + int n) mod TotalPages b"
      by (rule mod_add_left_eq)
    then show ?thesis by (simp add: add.commute add.left_commute)
  qed
  finally show ?case by simp
qed

text \<open>
  Claim C6. On a board that satisfies the pagination invariant, \<^verbatim>\<open>NextPage\<close> advances
  \<open>CurrentPage\<close> by one modulo \<open>TotalPages\<close> (from the last page to page 0) and changes
  nothing else, and \<open>TotalPages\<close> calls in a row give the board back as it was.
\<close>

theorem NextPage_rotation:
  assumes "pagination_inv b"
  shows "NextPage b = Some (b\<lparr>CurrentPage := (CurrentPage b + 1) mod TotalPages b\<rparr>) \<and>
         (CurrentPage b + 1) mod TotalPages b
           = (if CurrentPage b = TotalPages b - 1 then 0 else CurrentPage b + 1) \<and>
         NextPage_times (nat (TotalPages b)) b = Some b"
proof -
  from assms have r: "0 \<le> CurrentPage b" "CurrentPage b < TotalPages b"
    by (simp_all add: pagination_inv_def)
  have wrap: "(CurrentPage b + 1) mod TotalPages b
           = (if CurrentPage b = TotalPages b - 1 then 0 else CurrentPage b + 1)"
    using r by auto
  have "NextPage_times (nat (TotalPages b)) b
          = Some (b\<lparr>CurrentPage := (CurrentPage b + int (nat (TotalPages b))) mod TotalPages b\<rparr>)"
    by (rule NextPage_times_inv [OF assms])
  also have "(CurrentPage b + int (nat (TotalPages b))) mod TotalPages b = CurrentPage b"
    using r by simp
  finally have "NextPage_times (nat (TotalPages b)) b = Some b" by simp
  with NextPage_inv [OF assms] wrap show ?thesis by simp
qed

lemma example_board_inv: "pagination_inv example_board"
proof -
  have "\<lceil>(3::real) / 2\<rceil> = 2" by (simp add: ceiling_eq_iff)
  then show ?thesis
    by (simp add: pagination_inv_def example_board_def rowCount_def pageSize_def)
qed

theorem NextPage_rotation_witness:
  "pagination_inv example_board \<and>
   NextPage example_board = Some (example_board\<lparr>CurrentPage := 0\<rparr>) \<and>
   NextPage_times 2 example_board = Some example_board"
proof -
  have t: "TotalPages example_board = 2" "CurrentPage example_board = 1"
    by (simp_all add: example_board_def)
  from NextPage_rotation [OF example_board_inv] example_board_inv show ?thesis
    by (simp add: t)
qed

lemma NewFlightRow_nil:
  "NewFlightRow clk None h = Some (length (rows h), h\<lparr>rows := rows h @ [filler_row]\<rparr>)"
  by (simp add: NewFlightRow_def NewAnimatedText_def filler_row_def empty_text_def)

lemma fill_loop_eq:
  "fill_loop n result h =
     Some (result @ [length (rows h) ..< length (rows h) + n],
           h\<lparr>rows := rows h @ replicate n filler_row\<rparr>)"
proof (induction n arbitrary: result h)
  case 0
  then show ?case by simp
next
  case (Suc n)
  have "[length (rows h) ..< length (rows h) + Suc n]
          = length (rows h) # [Suc (length (rows h)) ..< Suc (length (rows h)) + n]"
    by (simp add: upt_rec)
  then show ?case
    by (simp add: NewFlightRow_nil Suc.IH replicate_app_Cons_same)
qed

lemma GetCurrentPageFlights_eq:
  assumes "0 \<le> CurrentPage b"
  shows "GetCurrentPageFlights b h
           = Some (take (nat (pageSize b)) (drop (nat (CurrentPage b * pageSize b)) (Flights b)) @
                     [length (rows h) ..<
                      length (rows h) + (nat (pageSize b)
                        - length (take (nat (pageSize b)) (drop (nat (CurrentPage b * pageSize b)) (Flights b))))],
                   h\<lparr>rows := rows h @
                       replicate (nat (pageSize b)
                         - length (take (nat (pageSize b)) (drop (nat (CurrentPage b * pageSize b)) (Flights b))))
                         filler_row\<rparr>)"
proof -
  let ?p = "pageSize b"
  let ?s = "CurrentPage b * ?p"
  let ?n = "int (length (Flights b))"
  let ?real = "take (nat ?p) (drop (nat ?s) (Flights b))"
  let ?k = "nat ?p - length ?real"
  have p: "0 < ?p" by (rule pageSize_pos)
  have s: "0 \<le> ?s" using assms p by simp
  have fpp: "(if FlightsPerPage b \<le> 0 then 10 else FlightsPerPage b) = ?p"
    by (simp add: pageSize_def)
  show "GetCurrentPageFlights b h
             = Some (?real @ [length (rows h) ..< length (rows h) + ?k],
                     h\<lparr>rows := rows h @ replicate ?k filler_row\<rparr>)"
  proof (cases "?s < ?n")
    case False
    then have "?real = []" using s by simp
    then show ?thesis
      using False by (simp add: GetCurrentPageFlights_def fpp Let_def fill_loop_eq)
  next
    case True
    show ?thesis
    proof (cases "?n < ?s + ?p")
      case short: True
      have "length (drop (nat ?s) (Flights b)) \<le> nat ?p" using short s by simp
      then have r: "?real = drop (nat ?s) (Flights b)" by simp
      have c: "nat (?n - ?s) = length ?real" using True s by (simp add: r nat_diff_distrib)
      have "take (nat (?n - ?s)) (drop (nat ?s) (Flights b)) = ?real" using c r by simp
      moreover have "nat (?p - (?n - ?s)) = ?k" using True s short by (simp add: r)
      ultimately show ?thesis
        using True short s by (simp add: GetCurrentPageFlights_def fpp Let_def fill_loop_eq)
    next
      case full: False
      have "nat ?p \<le> length (drop (nat ?s) (Flights b))" using full s p by simp
      then have "length ?real = nat ?p" by simp
      then show ?thesis
        using True full s p by (simp add: GetCurrentPageFlights_def fpp Let_def fill_loop_eq)
    qed
  qed
qed


lemma Update_updated_text: "wf_text fld \<Longrightarrow> Update clk s fld = Some (updated_text clk s fld)"
  by (simp add: Update_wf updated_text_def)

lemma wf_text_updated_text: "wf_text fld \<Longrightarrow> wf_text (updated_text clk s fld)"
  by (simp add: wf_text_def updated_text_def updated_chars_def)

lemma wf_field_text: "wf_field n fld \<Longrightarrow> wf_text fld"
  by (simp add: wf_field_def wf_text_def)

lemma wf_field_updated_text: "wf_field n fld \<Longrightarrow> wf_field n (updated_text clk s fld)"
  by (simp add: wf_field_def updated_text_def updated_chars_def)

lemma wf_field_empty: "wf_field n (empty_text n)"
  by (simp add: wf_field_def empty_text_def)

lemma wf_row_filler: "wf_row filler_row"
  by (simp add: wf_row_def filler_row_def wf_field_empty)

lemma update_fields_wf:
  "wf_row fr \<Longrightarrow> update_fields clk f (fr\<lparr>Flight := Some p\<rparr>) = Some (updated_row clk f p fr)"
proof -
  assume "wf_row fr"
  then have "wf_text (StatusAnim fr)" "wf_text (FlightNumAnim fr)" "wf_text (TimeAnim fr)"
    "wf_text (DestinationAnim fr)" "wf_text (GateAnim fr)" "wf_text (RemarksAnim fr)"
    by (auto simp: wf_row_def intro: wf_field_text)
  then show ?thesis
    by (simp add: update_fields_def Update_updated_text updated_row_def)
qed

lemma wf_row_updated_row: "wf_row fr \<Longrightarrow> wf_row (updated_row clk f p fr)"
  by (simp add: wf_row_def updated_row_def wf_field_updated_text)

lemma Flight_updated_row: "Flight (updated_row clk f p fr) = Some p"
  by (simp add: updated_row_def)

lemma NewAnimatedText_empty: "NewAnimatedText (int n) = Some (empty_text n)"
  by (simp add: NewAnimatedText_def empty_text_def)

lemma NewFlightRow_Some:
  assumes "deref h p = Some f"
  shows "NewFlightRow clk (Some p) h
           = Some (length (rows h), h\<lparr>rows := rows h @ [updated_row clk f p filler_row]\<rparr>)"
proof -
  have e: "NewAnimatedText 1 = Some (empty_text 1)" "NewAnimatedText 8 = Some (empty_text 8)"
    "NewAnimatedText 20 = Some (empty_text 20)" "NewAnimatedText 6 = Some (empty_text 6)"
    using NewAnimatedText_empty [of 1] NewAnimatedText_empty [of 8]
      NewAnimatedText_empty [of 20] NewAnimatedText_empty [of 6] by simp_all
  have "update_fields clk f (filler_row\<lparr>Flight := Some p\<rparr>) = Some (updated_row clk f p filler_row)"
    by (rule update_fields_wf [OF wf_row_filler])
  then have "update_fields clk f
     \<lparr>Flight = Some p, StatusAnim = empty_text 1, FlightNumAnim = empty_text 8,
      TimeAnim = empty_text 8, DestinationAnim = empty_text 20,
      GateAnim = empty_text 6, RemarksAnim = empty_text 20\<rparr> = Some (updated_row clk f p filler_row)"
    by (simp add: filler_row_def)
  then show ?thesis using assms by (simp add: NewFlightRow_def e)
qed

lemma FlightRow_Update_Some:
  assumes "r < length (rows h)" "deref h p = Some f" "wf_row (rows h ! r)"
  shows "FlightRow_Update clk r p h
           = Some (h\<lparr>rows := (rows h)[r := updated_row clk f p (rows h ! r)]\<rparr>)"
  using assms by (simp add: FlightRow_Update_def lookup_row_def update_fields_wf)

lemma deref_Some: "i < length (slices h sid) \<Longrightarrow> deref h (sid, i) = Some (slices h sid ! i)"
  by (simp add: deref_def)

lemma wf_heap_iff:
  "wf_heap h = (\<forall>r < length (rows h). wf_row (rows h ! r) \<and> valid_ptr h (Flight (rows h ! r)))"
  by (simp add: wf_heap_def list_all_length)

lemma slices_row_step: "slices (snd (row_step clk sid em i h)) = slices h"
  by (simp add: row_step_def Let_def split: option.splits)

lemma length_rows_row_step: "length (rows h) \<le> length (rows (snd (row_step clk sid em i h)))"
  by (simp add: row_step_def Let_def split: option.splits)

lemma valid_ptr_slices: "slices h' = slices h \<Longrightarrow> valid_ptr h' p = valid_ptr h p"
  by (simp add: valid_ptr_def split: option.splits)

lemma wf_heap_rows_update:
  "wf_heap (h\<lparr>rows := rs\<rparr>) = list_all (\<lambda>fr. wf_row fr \<and> valid_ptr h (Flight fr)) rs"
proof -
  have "valid_ptr (h\<lparr>rows := rs\<rparr>) p = valid_ptr h p" for p
    by (simp add: valid_ptr_def split: option.splits)
  then show ?thesis by (simp add: wf_heap_def)
qed

lemma wf_heap_rows:
  "wf_heap h = list_all (\<lambda>fr. wf_row fr \<and> valid_ptr h (Flight fr)) (rows h)"
  by (simp add: wf_heap_def)

lemma wf_heap_row_step:
  assumes "loop_ok em sid (i # is) h"
  shows "wf_heap (snd (row_step clk sid em i h))"
proof -
  let ?f = "slices h sid ! i"
  from assms have wf: "wf_heap h" and i: "i < length (slices h sid)"
    and em: "\<And>k r. em k = Some r \<Longrightarrow> r < length (rows h)"
    by (auto simp: loop_ok_def)
  have vp: "valid_ptr h (Some (sid, i))" using i by (simp add: valid_ptr_def)
  show ?thesis
  proof (cases "em (FlightNumber ?f)")
    case None
    then have s: "snd (row_step clk sid em i h)
                    = h\<lparr>rows := rows h @ [updated_row clk ?f (sid, i) filler_row]\<rparr>"
      by (simp add: row_step_def)
    show ?thesis
      unfolding s wf_heap_rows_update using wf vp
      by (simp add: wf_heap_rows wf_row_updated_row wf_row_filler Flight_updated_row)
  next
    case (Some r)
    then have s: "snd (row_step clk sid em i h)
                    = h\<lparr>rows := (rows h)[r := updated_row clk ?f (sid, i) (rows h ! r)]\<rparr>"
      by (simp add: row_step_def)
    from em [OF Some] have r: "r < length (rows h)" .
    from wf r have "wf_row (rows h ! r)" by (simp add: wf_heap_iff)
    then have new: "wf_row (updated_row clk ?f (sid, i) (rows h ! r))
        \<and> valid_ptr h (Flight (updated_row clk ?f (sid, i) (rows h ! r)))"
      using vp by (simp add: wf_row_updated_row Flight_updated_row)
    have "list_all (\<lambda>fr. wf_row fr \<and> valid_ptr h (Flight fr))
            ((rows h)[r := updated_row clk ?f (sid, i) (rows h ! r)])"
      unfolding list_all_length
    proof (intro allI impI)
      fix q assume "q < length ((rows h)[r := updated_row clk ?f (sid, i) (rows h ! r)])"
      then have q: "q < length (rows h)" by simp
      from wf q have old: "wf_row (rows h ! q) \<and> valid_ptr h (Flight (rows h ! q))"
        by (simp add: wf_heap_iff)
      show "wf_row ((rows h)[r := updated_row clk ?f (sid, i) (rows h ! r)] ! q) \<and>
            valid_ptr h (Flight ((rows h)[r := updated_row clk ?f (sid, i) (rows h ! r)] ! q))"
        using q old new by (cases "q = r") simp_all
    qed
    then show ?thesis unfolding s wf_heap_rows_update .
  qed
qed

lemma loop_ok_row_step:
  assumes "loop_ok em sid (i # is) h"
  shows "loop_ok em sid is (snd (row_step clk sid em i h))"
proof -
  have "\<And>k r. em k = Some r \<Longrightarrow> r < length (rows (snd (row_step clk sid em i h)))"
    using assms length_rows_row_step [of h clk sid em i] by (fastforce simp: loop_ok_def)
  moreover have "\<forall>j \<in> set is. j < length (slices (snd (row_step clk sid em i h)) sid)"
    using assms by (simp add: loop_ok_def slices_row_step)
  ultimately show ?thesis
    using wf_heap_row_step [OF assms] by (simp add: loop_ok_def)
qed

lemma rows_loop_step:
  assumes "loop_ok em sid (i # is) h"
  shows "rows_loop clk sid em (i # is) newRows h
           = rows_loop clk sid em is (newRows @ [fst (row_step (clk i) sid em i h)])
               (snd (row_step (clk i) sid em i h))"
proof -
  let ?f = "slices h sid ! i"
  from assms have wf: "wf_heap h" and i: "i < length (slices h sid)"
    and em: "\<And>k r. em k = Some r \<Longrightarrow> r < length (rows h)"
    by (auto simp: loop_ok_def)
  have d: "deref h (sid, i) = Some ?f" by (rule deref_Some [OF i])
  show ?thesis
  proof (cases "em (FlightNumber ?f)")
    case None
    then show ?thesis by (simp add: d NewFlightRow_Some [OF d] row_step_def)
  next
    case (Some r)
    from em [OF Some] have r: "r < length (rows h)" .
    with wf have "wf_row (rows h ! r)" by (simp add: wf_heap_iff)
    from FlightRow_Update_Some [OF r d this] Some show ?thesis
      by (simp add: d row_step_def)
  qed
qed

lemma rows_loop_result:
  "loop_ok em sid is h \<Longrightarrow>
   rows_loop clk sid em is newRows h = Some (rows_result clk sid em is newRows h)"
proof (induction "is" arbitrary: newRows h)
  case Nil
  then show ?case by simp
next
  case (Cons i "is")
  from Cons.IH [OF loop_ok_row_step [OF Cons.prems]] rows_loop_step [OF Cons.prems]
  show ?case by simp
qed

lemma rows_result_ok:
  "loop_ok em sid is h \<Longrightarrow>
   wf_heap (snd (rows_result clk sid em is newRows h)) \<and>
   slices (snd (rows_result clk sid em is newRows h)) = slices h \<and>
   length (rows h) \<le> length (rows (snd (rows_result clk sid em is newRows h)))"
proof (induction "is" arbitrary: newRows h)
  case Nil
  then show ?case by (simp add: loop_ok_def)
next
  case (Cons i "is")
  from Cons.IH [OF loop_ok_row_step [OF Cons.prems]]
    slices_row_step [of "clk i" sid em i h] length_rows_row_step [of h "clk i" sid em i]
  show ?case by (simp del: row_step_def) (metis le_trans)
qed

lemma em_range_row_step:
  "(\<forall>k r. em k = Some r \<longrightarrow> r < length (rows h)) \<Longrightarrow>
   (\<forall>k r. em k = Some r \<longrightarrow> r < length (rows (snd (row_step clk sid em i h))))"
  using length_rows_row_step [of h clk sid em i] by (meson less_le_trans)

lemma row_step_old_row:
  assumes "\<forall>k r. em k = Some r \<longrightarrow> r < length (rows h)" "r < length (rows h)"
  shows "rows (snd (row_step (clk i) sid em i h)) ! r
           = hit_update clk sid em (slices h sid) r i (rows h ! r)"
proof (cases "em (FlightNumber (slices h sid ! i))")
  case None
  then show ?thesis using assms(2) by (simp add: row_step_def hit_update_def nth_append)
next
  case (Some r')
  with assms(1) have "r' < length (rows h)" by blast
  then show ?thesis using Some assms(2)
    by (auto simp: row_step_def hit_update_def nth_list_update)
qed

lemma rows_result_old_row:
  "(\<forall>k r. em k = Some r \<longrightarrow> r < length (rows h)) \<Longrightarrow> r < length (rows h) \<Longrightarrow>
   rows (snd (rows_result clk sid em is newRows h)) ! r
     = fold (hit_update clk sid em (slices h sid) r) is (rows h ! r)"
proof (induction "is" arbitrary: newRows h)
  case Nil
  then show ?case by simp
next
  case (Cons i "is")
  let ?h1 = "snd (row_step (clk i) sid em i h)"
  have r1: "r < length (rows ?h1)"
    using Cons.prems(2) length_rows_row_step [of h "clk i" sid em i] by simp
  from Cons.IH [OF em_range_row_step [OF Cons.prems(1)] r1]
  have "rows (snd (rows_result clk sid em is (newRows @ [fst (row_step (clk i) sid em i h)]) ?h1)) ! r
          = fold (hit_update clk sid em (slices h sid) r) is (rows ?h1 ! r)"
    by (simp add: slices_row_step)
  then show ?case
    by (simp add: row_step_old_row [OF Cons.prems])
qed

lemma rows_result_fst:
  "\<exists>ys. fst (rows_result clk sid em is newRows h) = newRows @ ys \<and> length ys = length is"
proof (induction "is" arbitrary: newRows h)
  case Nil
  then show ?case by simp
next
  case (Cons i "is")
  from Cons.IH [of "newRows @ [fst (row_step (clk i) sid em i h)]" "snd (row_step (clk i) sid em i h)"]
  obtain ys where "fst (rows_result clk sid em (i # is) newRows h)
                     = newRows @ (fst (row_step (clk i) sid em i h) # ys)" "length ys = length is"
    by auto
  then show ?case by (intro exI [of _ "fst (row_step (clk i) sid em i h) # ys"]) simp
qed

lemma length_rows_result:
  "length (fst (rows_result clk sid em is newRows h)) = length newRows + length is"
  using rows_result_fst [of clk sid em "is" newRows h] by auto

lemma rows_result_prefix:
  "j < length newRows \<Longrightarrow> fst (rows_result clk sid em is newRows h) ! j = newRows ! j"
  using rows_result_fst [of clk sid em "is" newRows h] by (auto simp: nth_append)

lemma rows_result_existing:
  "k < length is \<Longrightarrow> em (FlightNumber (slices h sid ! (is ! k))) = Some r \<Longrightarrow>
   fst (rows_result clk sid em is newRows h) ! (length newRows + k) = r"
proof (induction "is" arbitrary: newRows h k)
  case Nil
  then show ?case by simp
next
  case (Cons i "is")
  let ?h1 = "snd (row_step (clk i) sid em i h)"
  let ?r1 = "fst (row_step (clk i) sid em i h)"
  show ?case
  proof (cases k)
    case 0
    then have "?r1 = r" using Cons.prems(2) by (simp add: row_step_def)
    moreover have "fst (rows_result clk sid em is (newRows @ [?r1]) ?h1) ! length newRows
                     = (newRows @ [?r1]) ! length newRows"
      by (rule rows_result_prefix) simp
    ultimately show ?thesis using 0 by simp
  next
    case (Suc k')
    then have "k' < length is" "em (FlightNumber (slices ?h1 sid ! (is ! k'))) = Some r"
      using Cons.prems by (simp_all add: slices_row_step)
    from Cons.IH [OF this, of "newRows @ [?r1]"] Suc show ?thesis by simp
  qed
qed

lemma rows_result_grows:
  "length (rows h) \<le> length (rows (snd (rows_result clk sid em is newRows h)))"
proof (induction "is" arbitrary: newRows h)
  case Nil
  then show ?case by simp
next
  case (Cons i "is")
  have "length (rows h) \<le> length (rows (snd (row_step (clk i) sid em i h)))"
    by (rule length_rows_row_step)
  also have "\<dots> \<le> length (rows (snd (rows_result clk sid em is
      (newRows @ [fst (row_step (clk i) sid em i h)]) (snd (row_step (clk i) sid em i h)))))"
    by (rule Cons.IH)
  finally show ?case by simp
qed

lemma fold_no_hit:
  "\<forall>i \<in> set is. em (FlightNumber (xs ! i)) \<noteq> Some r \<Longrightarrow>
   fold (hit_update clk sid em xs r) is fr = fr"
  by (induction "is" arbitrary: fr) (simp_all add: hit_update_def)

lemma rows_result_new:
  "(\<forall>k r. em k = Some r \<longrightarrow> r < length (rows h)) \<Longrightarrow> k < length is \<Longrightarrow>
   em (FlightNumber (slices h sid ! (is ! k))) = None \<Longrightarrow>
   length (rows h) \<le> fst (rows_result clk sid em is newRows h) ! (length newRows + k) \<and>
   fst (rows_result clk sid em is newRows h) ! (length newRows + k)
     < length (rows (snd (rows_result clk sid em is newRows h))) \<and>
   rows (snd (rows_result clk sid em is newRows h))
     ! (fst (rows_result clk sid em is newRows h) ! (length newRows + k))
     = updated_row (clk (is ! k)) (slices h sid ! (is ! k)) (sid, is ! k) filler_row"
proof (induction "is" arbitrary: newRows h k)
  case Nil
  then show ?case by simp
next
  case (Cons i "is")
  let ?h1 = "snd (row_step (clk i) sid em i h)"
  let ?r1 = "fst (row_step (clk i) sid em i h)"
  let ?res = "rows_result clk sid em is (newRows @ [?r1]) ?h1"
  have em1: "\<forall>k r. em k = Some r \<longrightarrow> r < length (rows ?h1)"
    by (rule em_range_row_step [OF Cons.prems(1)])
  have grow: "length (rows h) \<le> length (rows ?h1)" by (rule length_rows_row_step)
  show ?case
  proof (cases k)
    case 0
    with Cons.prems(3) have none: "em (FlightNumber (slices h sid ! i)) = None" by simp
    then have r1: "?r1 = length (rows h)"
      and h1: "rows ?h1 = rows h @ [updated_row (clk i) (slices h sid ! i) (sid, i) filler_row]"
      by (simp_all add: row_step_def)
    have a: "fst ?res ! length newRows = length (rows h)"
      using rows_result_prefix [of "length newRows" "newRows @ [?r1]" clk sid em "is" ?h1] r1
      by simp
    have lt1: "length (rows h) < length (rows ?h1)" by (simp add: h1)
    have "\<forall>j \<in> set is. em (FlightNumber (slices ?h1 sid ! j)) \<noteq> Some (length (rows h))"
      using Cons.prems(1) by (metis less_irrefl)
    then have "rows (snd ?res) ! length (rows h) = rows ?h1 ! length (rows h)"
      using rows_result_old_row [OF em1 lt1, of clk sid "is" "newRows @ [?r1]"]
      by (simp add: fold_no_hit)
    moreover have "length (rows ?h1) \<le> length (rows (snd ?res))"
      by (rule rows_result_grows)
    ultimately show ?thesis using 0 a lt1 by (simp add: h1)
  next
    case (Suc k')
    then have p: "k' < length is" "em (FlightNumber (slices ?h1 sid ! (is ! k'))) = None"
      using Cons.prems by (simp_all add: slices_row_step)
    from Cons.IH [OF em1 p, of "newRows @ [?r1]"] Suc grow show ?thesis
      by (simp add: slices_row_step)
  qed
qed

lemma existingMap_loop_fold:
  "wf_heap h \<Longrightarrow> list_all (\<lambda>r. r < length (rows h)) rs \<Longrightarrow>
   existingMap_loop h rs m = Some (fold (em_step h) rs m)"
proof (induction rs arbitrary: m)
  case Nil
  then show ?case by simp
next
  case (Cons r rs)
  from Cons.prems have r: "r < length (rows h)" and rs: "list_all (\<lambda>r. r < length (rows h)) rs"
    by simp_all
  from Cons.prems(1) r have vp: "valid_ptr h (Flight (rows h ! r))" by (simp add: wf_heap_iff)
  show ?case
  proof (cases "Flight (rows h ! r)")
    case None
    then have "em_step h r m = m" by (simp add: em_step_def row_key_def row_flight_def)
    then show ?thesis using None r Cons.IH [OF Cons.prems(1) rs]
      by (simp add: lookup_row_def)
  next
    case (Some p)
    with vp have d: "deref h p = Some (slices h (fst p) ! snd p)"
      by (simp add: valid_ptr_def deref_def)
    then have "em_step h r m = m(FlightNumber (slices h (fst p) ! snd p) \<mapsto> r)"
      using Some by (simp add: em_step_def row_key_def row_flight_def)
    then show ?thesis using Some r d Cons.IH [OF Cons.prems(1) rs]
      by (simp add: lookup_row_def fun_upd_def)
  qed
qed

lemma fold_em_step_Some:
  "fold (em_step h) rs m k = Some r \<Longrightarrow> m k = Some r \<or> (r \<in> set rs \<and> row_key h r = Some k)"
proof (induction rs arbitrary: m)
  case Nil
  then show ?case by simp
next
  case (Cons q rs)
  from Cons.IH [OF Cons.prems [simplified]]
  have "em_step h q m k = Some r \<or> (r \<in> set rs \<and> row_key h r = Some k)" .
  then show ?case
    by (auto simp: em_step_def split: option.splits if_splits)
qed

lemma fold_em_step_keep:
  "m k = Some r0 \<Longrightarrow> \<exists>r. fold (em_step h) rs m k = Some r"
proof (induction rs arbitrary: m r0)
  case Nil
  then show ?case by simp
next
  case (Cons q rs)
  have "\<exists>r1. em_step h q m k = Some r1"
    using Cons.prems by (auto simp: em_step_def split: option.splits)
  then obtain r1 where "em_step h q m k = Some r1" by blast
  then have "\<exists>r. fold (em_step h) rs (em_step h q m) k = Some r" by (rule Cons.IH)
  then show ?case by simp
qed

lemma fold_em_step_found:
  "r \<in> set rs \<Longrightarrow> row_key h r = Some k \<Longrightarrow> \<exists>r'. fold (em_step h) rs m k = Some r'"
proof (induction rs arbitrary: m)
  case Nil
  then show ?case by simp
next
  case (Cons q rs)
  show ?case
  proof (cases "r = q")
    case True
    with Cons.prems(2) have "em_step h q m k = Some q" by (simp add: em_step_def)
    then have "\<exists>r. fold (em_step h) rs (em_step h q m) k = Some r" by (rule fold_em_step_keep)
    then show ?thesis by simp
  next
    case False
    with Cons.prems have "r \<in> set rs" by simp
    from Cons.IH [OF this Cons.prems(2)] show ?thesis by simp
  qed
qed

lemma existing_rows_Some:
  "existing_rows b h k = Some r \<Longrightarrow> r \<in> set (Flights b) \<and> row_key h r = Some k"
  using fold_em_step_Some [of h "Flights b" Map.empty k r] by (simp add: existing_rows_def)

lemma existing_rows_found:
  "r \<in> set (Flights b) \<Longrightarrow> row_key h r = Some k \<Longrightarrow>
   \<exists>r'. existing_rows b h k = Some r' \<and> r' \<in> set (Flights b) \<and> row_key h r' = Some k"
  using fold_em_step_found [of r "Flights b" h k Map.empty] existing_rows_Some [of b h k]
  by (auto simp: existing_rows_def)

lemma existing_rows_None:
  "existing_rows b h k = None \<Longrightarrow> \<forall>r \<in> set (Flights b). row_key h r \<noteq> Some k"
  using existing_rows_found [of _ b h k] by fastforce

lemma wf_heap_with_slice:
  assumes "wf_heap h" "length xs = length (slices h sid)"
  shows "wf_heap (with_slice h sid xs)"
proof -
  have "valid_ptr (with_slice h sid xs) p = valid_ptr h p" for p
    using assms(2) by (simp add: valid_ptr_def with_slice_def split: option.splits)
  then show ?thesis using assms(1) by (simp add: wf_heap_def with_slice_def)
qed

lemma length_sorted_slice:
  "sort_Slice_contract srt \<Longrightarrow> length (sorted_slice srt b h sid) = length (slices h sid)"
proof -
  assume "sort_Slice_contract srt"
  then have "mset (sorted_slice srt b h sid) = mset (map (convert_flight (AirportTZ b)) (slices h sid))"
    by (simp add: sort_Slice_contract_def sorted_slice_def)
  then have "length (sorted_slice srt b h sid)
               = length (map (convert_flight (AirportTZ b)) (slices h sid))"
    by (rule mset_eq_length)
  then show ?thesis by simp
qed

lemma loop_ok_UpdateFlights:
  assumes c: "sort_Slice_contract srt" and wf: "wf_board b h"
  shows "loop_ok (existing_rows b (with_slice h sid (sorted_slice srt b h sid))) sid
           [0..<length (sorted_slice srt b h sid)] (with_slice h sid (sorted_slice srt b h sid))"
proof -
  let ?xs = "sorted_slice srt b h sid"
  let ?h1 = "with_slice h sid ?xs"
  from wf have wfh: "wf_heap h" and fl: "list_all (\<lambda>r. r < length (rows h)) (Flights b)"
    by (simp_all add: wf_board_def)
  have wf1: "wf_heap ?h1" by (rule wf_heap_with_slice [OF wfh length_sorted_slice [OF c]])
  have "\<And>k r. existing_rows b ?h1 k = Some r \<Longrightarrow> r < length (rows ?h1)"
    using existing_rows_Some [of b ?h1] fl by (auto simp: list_all_iff with_slice_def)
  then show ?thesis using wf1 by (simp add: loop_ok_def) (simp add: with_slice_def)
qed

lemma UpdateFlights_eq:
  assumes c: "sort_Slice_contract srt" and wf: "wf_board b h"
  shows "UpdateFlights srt clk sid b h
           = Some (updatePagination (b\<lparr>Flights := fst (UpdateFlights_result srt clk sid b h)\<rparr>),
                   snd (UpdateFlights_result srt clk sid b h))"
proof -
  let ?xs = "sorted_slice srt b h sid"
  let ?h1 = "with_slice h sid ?xs"
  from wf have wfh: "wf_heap h" and fl: "list_all (\<lambda>r. r < length (rows h)) (Flights b)"
    by (simp_all add: wf_board_def)
  have wf1: "wf_heap ?h1" by (rule wf_heap_with_slice [OF wfh length_sorted_slice [OF c]])
  have fl1: "list_all (\<lambda>r. r < length (rows ?h1)) (Flights b)" using fl by (simp add: with_slice_def)
  have em: "existingMap_loop ?h1 (Flights b) Map.empty = Some (existing_rows b ?h1)"
    using existingMap_loop_fold [OF wf1 fl1] by (simp add: existing_rows_def)
  have loop: "rows_loop clk sid (existing_rows b ?h1) [0..<length ?xs] [] ?h1
                = Some (rows_result clk sid (existing_rows b ?h1) [0..<length ?xs] [] ?h1)"
    by (rule rows_loop_result [OF loop_ok_UpdateFlights [OF c wf]])
  have "UpdateFlights srt clk sid b h
          = do { existingMap \<leftarrow> existingMap_loop ?h1 (Flights b) Map.empty;
                 (newRows, h2) \<leftarrow> rows_loop clk sid existingMap [0..<length ?xs] [] ?h1;
                 Some (updatePagination (b\<lparr>Flights := newRows\<rparr>), h2) }"
    by (simp add: UpdateFlights_def sorted_slice_def with_slice_def Let_def)
  then show ?thesis
    by (simp add: em loop UpdateFlights_result_def Let_def split_beta)
qed

lemma hit_update_hit:
  "em (FlightNumber (xs ! i)) = Some r \<Longrightarrow>
   hit_update clk sid em xs r i fr = updated_row (clk i) (xs ! i) (sid, i) fr"
  by (simp add: hit_update_def)

lemma hit_update_miss:
  "em (FlightNumber (xs ! i)) \<noteq> Some r \<Longrightarrow> hit_update clk sid em xs r i fr = fr"
  by (simp add: hit_update_def)

lemma wf_row_hit_update: "wf_row fr \<Longrightarrow> wf_row (hit_update clk sid em xs r i fr)"
  by (simp add: hit_update_def wf_row_updated_row)

lemma wf_row_fold_hit: "wf_row fr \<Longrightarrow> wf_row (fold (hit_update clk sid em xs r) is fr)"
  by (induction "is" arbitrary: fr) (simp_all add: wf_row_hit_update)

lemma fold_last_hit:
  "\<exists>j \<in> set is. em (FlightNumber (xs ! j)) = Some r \<Longrightarrow> wf_row fr \<Longrightarrow>
   \<exists>j fr'. j \<in> set is \<and> em (FlightNumber (xs ! j)) = Some r \<and> wf_row fr' \<and>
      fold (hit_update clk sid em xs r) is fr = updated_row (clk j) (xs ! j) (sid, j) fr'"
proof (induction "is" rule: rev_induct)
  case Nil
  then show ?case by simp
next
  case (snoc i "is")
  show ?case
  proof (cases "em (FlightNumber (xs ! i)) = Some r")
    case True
    have "wf_row (fold (hit_update clk sid em xs r) is fr)"
      by (rule wf_row_fold_hit [OF snoc.prems(2)])
    moreover have "fold (hit_update clk sid em xs r) (is @ [i]) fr
        = updated_row (clk i) (xs ! i) (sid, i) (fold (hit_update clk sid em xs r) is fr)"
      using True by (simp add: hit_update_hit)
    ultimately show ?thesis using True
      by (intro exI [of _ i] exI [of _ "fold (hit_update clk sid em xs r) is fr"]) simp
  next
    case False
    with snoc.prems(1) have "\<exists>j \<in> set is. em (FlightNumber (xs ! j)) = Some r" by auto
    from snoc.IH [OF this snoc.prems(2)] obtain j fr' where
      "j \<in> set is" "em (FlightNumber (xs ! j)) = Some r" "wf_row fr'"
      "fold (hit_update clk sid em xs r) is fr = updated_row (clk j) (xs ! j) (sid, j) fr'"
      by blast
    then show ?thesis using False
      by (intro exI [of _ j] exI [of _ fr']) (simp add: hit_update_miss)
  qed
qed

lemma fold_single_hit:
  "j \<in> set is \<Longrightarrow> distinct is \<Longrightarrow> em (FlightNumber (xs ! j)) = Some r \<Longrightarrow>
   \<forall>i \<in> set is. i \<noteq> j \<longrightarrow> em (FlightNumber (xs ! i)) \<noteq> Some r \<Longrightarrow>
   fold (hit_update clk sid em xs r) is fr = updated_row (clk j) (xs ! j) (sid, j) fr"
proof (induction "is" arbitrary: fr)
  case Nil
  then show ?case by simp
next
  case (Cons i "is")
  show ?case
  proof (cases "i = j")
    case True
    with Cons.prems(2) have "j \<notin> set is" by simp
    with Cons.prems(4) have "\<forall>i \<in> set is. em (FlightNumber (xs ! i)) \<noteq> Some r" by auto
    then show ?thesis using True Cons.prems(3) by (simp add: fold_no_hit hit_update_hit)
  next
    case False
    with Cons.prems have "j \<in> set is" "distinct is"
      "\<forall>i \<in> set is. i \<noteq> j \<longrightarrow> em (FlightNumber (xs ! i)) \<noteq> Some r"
      "em (FlightNumber (xs ! i)) \<noteq> Some r" by auto
    with Cons.IH [of fr] Cons.prems(3) show ?thesis by (simp add: hit_update_miss)
  qed
qed

text \<open>The state after \<open>UpdateFlights\<close>, part by part.\<close>

lemma UpdateFlights_result_heap:
  assumes c: "sort_Slice_contract srt" and wf: "wf_board b h"
  shows "wf_heap (snd (UpdateFlights_result srt clk sid b h))"
    and "slices (snd (UpdateFlights_result srt clk sid b h))
           = (slices h)(sid := sorted_slice srt b h sid)"
    and "length (rows h) \<le> length (rows (snd (UpdateFlights_result srt clk sid b h)))"
    and "length (fst (UpdateFlights_result srt clk sid b h)) = length (sorted_slice srt b h sid)"
proof -
  let ?xs = "sorted_slice srt b h sid"
  let ?h1 = "with_slice h sid ?xs"
  from rows_result_ok [OF loop_ok_UpdateFlights [OF c wf], where clk = clk and newRows = "[]"]
  show "wf_heap (snd (UpdateFlights_result srt clk sid b h))"
    and "slices (snd (UpdateFlights_result srt clk sid b h)) = (slices h)(sid := ?xs)"
    and "length (rows h) \<le> length (rows (snd (UpdateFlights_result srt clk sid b h)))"
    by (simp_all add: UpdateFlights_result_def Let_def with_slice_def)
  show "length (fst (UpdateFlights_result srt clk sid b h)) = length ?xs"
    by (simp add: UpdateFlights_result_def Let_def length_rows_result)
qed

lemma UpdateFlights_result_existing:
  assumes c: "sort_Slice_contract srt" and wf: "wf_board b h"
    and k: "k < length (sorted_slice srt b h sid)"
    and e: "existing_rows b (with_slice h sid (sorted_slice srt b h sid))
              (FlightNumber (sorted_slice srt b h sid ! k)) = Some r"
  shows "fst (UpdateFlights_result srt clk sid b h) ! k = r"
    and "r \<in> set (Flights b)" and "r < length (rows h)"
    and "rows (snd (UpdateFlights_result srt clk sid b h)) ! r
           = fold (hit_update clk sid (existing_rows b (with_slice h sid (sorted_slice srt b h sid)))
                    (sorted_slice srt b h sid) r)
               [0..<length (sorted_slice srt b h sid)] (rows h ! r)"
proof -
  let ?xs = "sorted_slice srt b h sid"
  let ?h1 = "with_slice h sid ?xs"
  let ?em = "existing_rows b ?h1"
  have s1: "slices ?h1 sid = ?xs" and r1: "rows ?h1 = rows h" by (simp_all add: with_slice_def)
  have ok: "loop_ok ?em sid [0..<length ?xs] ?h1" by (rule loop_ok_UpdateFlights [OF c wf])
  from existing_rows_Some [OF e] show rb: "r \<in> set (Flights b)" by simp
  with wf show rl: "r < length (rows h)" by (simp add: wf_board_def list_all_iff)
  have "fst (rows_result clk sid ?em [0..<length ?xs] [] ?h1) ! (length ([]::nat list) + k) = r"
    using k e by (intro rows_result_existing) (simp_all add: s1)
  then show "fst (UpdateFlights_result srt clk sid b h) ! k = r"
    by (simp add: UpdateFlights_result_def Let_def)
  have emr: "\<forall>k r. ?em k = Some r \<longrightarrow> r < length (rows ?h1)" using ok by (simp add: loop_ok_def)
  from rows_result_old_row [OF emr, of r clk sid "[0..<length ?xs]" "[]"] rl
  show "rows (snd (UpdateFlights_result srt clk sid b h)) ! r
           = fold (hit_update clk sid ?em ?xs r) [0..<length ?xs] (rows h ! r)"
    by (simp add: UpdateFlights_result_def Let_def s1 r1)
qed

lemma UpdateFlights_result_new:
  assumes c: "sort_Slice_contract srt" and wf: "wf_board b h"
    and k: "k < length (sorted_slice srt b h sid)"
    and e: "existing_rows b (with_slice h sid (sorted_slice srt b h sid))
              (FlightNumber (sorted_slice srt b h sid ! k)) = None"
  shows "length (rows h) \<le> fst (UpdateFlights_result srt clk sid b h) ! k"
    and "fst (UpdateFlights_result srt clk sid b h) ! k
           < length (rows (snd (UpdateFlights_result srt clk sid b h)))"
    and "rows (snd (UpdateFlights_result srt clk sid b h)) ! (fst (UpdateFlights_result srt clk sid b h) ! k)
           = updated_row (clk k) (sorted_slice srt b h sid ! k) (sid, k) filler_row"
proof -
  let ?xs = "sorted_slice srt b h sid"
  let ?h1 = "with_slice h sid ?xs"
  let ?em = "existing_rows b ?h1"
  have s1: "slices ?h1 sid = ?xs" and r1: "rows ?h1 = rows h" by (simp_all add: with_slice_def)
  have ok: "loop_ok ?em sid [0..<length ?xs] ?h1" by (rule loop_ok_UpdateFlights [OF c wf])
  have emr: "\<forall>k r. ?em k = Some r \<longrightarrow> r < length (rows ?h1)" using ok by (simp add: loop_ok_def)
  have k': "k < length [0..<length ?xs]" using k by simp
  have e': "?em (FlightNumber (slices ?h1 sid ! ([0..<length ?xs] ! k))) = None"
    using e k by (simp add: s1)
  from rows_result_new [OF emr k' e', where clk = clk and newRows = "[]"] k
  show "length (rows h) \<le> fst (UpdateFlights_result srt clk sid b h) ! k"
    and "fst (UpdateFlights_result srt clk sid b h) ! k
           < length (rows (snd (UpdateFlights_result srt clk sid b h)))"
    and "rows (snd (UpdateFlights_result srt clk sid b h)) ! (fst (UpdateFlights_result srt clk sid b h) ! k)
           = updated_row (clk k) (?xs ! k) (sid, k) filler_row"
    by (simp_all add: UpdateFlights_result_def Let_def s1 r1)
qed

lemma UpdateFlights_row_view:
  assumes c: "sort_Slice_contract srt" and wf: "wf_board b h"
    and k: "k < length (sorted_slice srt b h sid)"
  shows "\<exists>j fr'. j < length (sorted_slice srt b h sid) \<and>
           FlightNumber (sorted_slice srt b h sid ! j) = FlightNumber (sorted_slice srt b h sid ! k) \<and>
           wf_row fr' \<and>
           fst (UpdateFlights_result srt clk sid b h) ! k
             < length (rows (snd (UpdateFlights_result srt clk sid b h))) \<and>
           rows (snd (UpdateFlights_result srt clk sid b h)) ! (fst (UpdateFlights_result srt clk sid b h) ! k)
             = updated_row (clk j) (sorted_slice srt b h sid ! j) (sid, j) fr'"
proof -
  let ?xs = "sorted_slice srt b h sid"
  let ?h1 = "with_slice h sid ?xs"
  let ?em = "existing_rows b ?h1"
  let ?res = "UpdateFlights_result srt clk sid b h"
  show ?thesis
  proof (cases "?em (FlightNumber (?xs ! k))")
    case None
    from UpdateFlights_result_new [OF c wf k None] wf_row_filler k
    show ?thesis by (intro exI [of _ k] exI [of _ filler_row]) simp
  next
    case (Some r)
    note ex = UpdateFlights_result_existing [OF c wf k Some]
    from wf ex(3) have wfr: "wf_row (rows h ! r)" by (simp add: wf_board_def wf_heap_iff)
    have "\<exists>j \<in> set [0..<length ?xs]. ?em (FlightNumber (?xs ! j)) = Some r"
      using k Some by auto
    from fold_last_hit [OF this wfr, of clk sid] obtain j fr' where
      j: "j < length ?xs" and hit: "?em (FlightNumber (?xs ! j)) = Some r" and w: "wf_row fr'"
      and f: "fold (hit_update clk sid ?em ?xs r) [0..<length ?xs] (rows h ! r)
                = updated_row (clk j) (?xs ! j) (sid, j) fr'"
      by auto
    from existing_rows_Some [OF hit] existing_rows_Some [OF Some]
    have key: "FlightNumber (?xs ! j) = FlightNumber (?xs ! k)" by simp
    have "r < length (rows (snd ?res))"
      using ex(3) UpdateFlights_result_heap(3) [OF c wf, of clk sid] by simp
    then show ?thesis using j key w ex(1) ex(4) f
      by (intro exI [of _ j] exI [of _ fr']) simp
  qed
qed



lemma wf_board_UpdateFlights:
  assumes c: "sort_Slice_contract srt" and wf: "wf_board b h"
  shows "wf_board (updatePagination (b\<lparr>Flights := fst (UpdateFlights_result srt clk sid b h)\<rparr>))
           (snd (UpdateFlights_result srt clk sid b h))"
proof -
  let ?res = "UpdateFlights_result srt clk sid b h"
  have "\<forall>k < length (fst ?res). fst ?res ! k < length (rows (snd ?res))"
    using UpdateFlights_row_view [OF c wf, of _ sid clk]
    by (simp add: UpdateFlights_result_heap(4) [OF c wf]) blast
  then have "list_all (\<lambda>r. r < length (rows (snd ?res))) (fst ?res)"
    by (simp add: list_all_length)
  then show ?thesis
    using UpdateFlights_result_heap(1) [OF c wf, of clk sid]
    by (simp add: wf_board_def updatePagination_frame)
qed

lemma sorted_wrt_departure:
  "sorted_wrt (\<lambda>a b. \<not> less_departure b a) xs = sorted (map departure_key xs)"
proof -
  have "(\<lambda>a b. \<not> less_departure b a) = (\<lambda>a b. departure_key a \<le> departure_key b)"
    by (auto simp: less_departure_def Before_def departure_key_def fun_eq_iff)
  then show ?thesis by (simp add: sorted_map)
qed

lemma contract_stable_sort: "sort_Slice_contract stable_sort"
  by (simp add: sort_Slice_contract_def sorted_wrt_departure stable_sort_def)



lemma UpdateFlights_Some:
  assumes c: "sort_Slice_contract srt" and wf: "wf_board b h"
  obtains b' h' where "UpdateFlights srt clk sid b h = Some (b', h')"
    and "b' = updatePagination (b\<lparr>Flights := fst (UpdateFlights_result srt clk sid b h)\<rparr>)"
    and "h' = snd (UpdateFlights_result srt clk sid b h)"
    and "Flights b' = fst (UpdateFlights_result srt clk sid b h)"
    and "slices h' = (slices h)(sid := sorted_slice srt b h sid)"
    and "wf_board b' h'"
  using UpdateFlights_eq [OF c wf] wf_board_UpdateFlights [OF c wf]
    UpdateFlights_result_heap(2) [OF c wf]
  by (simp add: updatePagination_frame)

























lemma stable_sort_single: "stable_sort [f] = [f]"
  by (simp add: stable_sort_def)



lemma normalized_idem: "normalized n (normalized n s) = normalized n s"
  by (simp add: normalized_def)

lemma shows_text_updated_text: "shows_text (updated_text clk s fld) s"
  by (simp add: shows_text_def updated_text_def updated_chars_def list_all_length)

lemma shows_text_Tick: "shows_text fld s \<Longrightarrow> shows_text (Tick clk fld) s"
  by (auto simp: shows_text_def Tick_def list_all_length nth_enumerate_eq)

lemma row_shows_updated_row: "wf_row fr \<Longrightarrow> row_shows (updated_row clk g p fr) g"
  by (simp add: row_shows_def updated_row_def shows_text_updated_text)

lemma row_shows_tick_fields: "row_shows fr g \<Longrightarrow> row_shows (tick_fields clk fr) g"
  by (simp add: row_shows_def tick_fields_def shows_text_Tick)

lemma updated_chars_same:
  assumes "list_all (\<lambda>cell. cell \<noteq> None) cs"
  shows "updated_chars clk s s cs = cs"
proof (rule nth_equalityI)
  show "length (updated_chars clk s s cs) = length cs" by (simp add: updated_chars_def)
  fix j assume "j < length (updated_chars clk s s cs)"
  then have j: "j < length cs" by (simp add: updated_chars_def)
  with assms obtain c where "cs ! j = Some c" by (auto simp: list_all_length)
  then show "updated_chars clk s s cs ! j = cs ! j"
    using j by (simp add: updated_chars_def update_char_same)
qed

lemma updated_text_same:
  assumes "shows_text fld s0"
    and "normalized (length (Chars fld)) s = normalized (length (Chars fld)) s0"
  shows "updated_text clk s fld = fld"
proof -
  from assms(1) have o: "OldText fld = normalized (length (Chars fld)) s0"
    and n: "NewText fld = OldText fld" and cs: "list_all (\<lambda>cell. cell \<noteq> None) (Chars fld)"
    by (simp_all add: shows_text_def)
  have "normalized (length (Chars fld)) (OldText fld) = normalized (length (Chars fld)) s"
    by (simp add: o normalized_idem assms(2))
  then show ?thesis
    by (simp add: updated_text_def updated_chars_same [OF cs] assms(2) o [symmetric] n)
qed

lemma updated_text_cells:
  assumes "shows_text fld s0" and "j < length (Chars fld)"
  shows "Chars (updated_text clk s fld) ! j =
           (if normalized (length (Chars fld)) s0 ! j \<noteq> normalized (length (Chars fld)) s ! j
            then Some \<lparr>OldChar = rune_of_byte (normalized (length (Chars fld)) s0 ! j),
                       NewChar = rune_of_byte (normalized (length (Chars fld)) s ! j),
                       State = CharStateBlinking, BlinkPhase = 0, StartTime = clk j\<rparr>
            else Chars fld ! j)"
proof -
  let ?n = "length (Chars fld)"
  from assms(1) have o: "OldText fld = normalized ?n s0"
    and cs: "list_all (\<lambda>cell. cell \<noteq> None) (Chars fld)"
    by (simp_all add: shows_text_def)
  from cs assms(2) obtain c where c: "Chars fld ! j = Some c" by (auto simp: list_all_length)
  have old: "char_at (normalized ?n (OldText fld)) j = rune_of_byte (normalized ?n s0 ! j)"
    using assms(2) by (simp add: o normalized_idem char_at_normalized)
  have new: "char_at (normalized ?n s) j = rune_of_byte (normalized ?n s ! j)"
    using assms(2) by (simp add: char_at_normalized)
  have cell: "Chars (updated_text clk s fld) ! j
          = Some (update_char (clk j) (rune_of_byte (normalized ?n s0 ! j))
                    (rune_of_byte (normalized ?n s ! j)) (Some c))"
    using assms(2) by (simp add: updated_text_def updated_chars_def old new c)
  show ?thesis
  proof (cases "normalized ?n s0 ! j = normalized ?n s ! j")
    case True
    then show ?thesis by (simp add: cell update_char_same c)
  next
    case False
    then have "rune_of_byte (normalized ?n s0 ! j) \<noteq> rune_of_byte (normalized ?n s ! j)"
      using rune_of_byte_inj by blast
    then show ?thesis using False by (simp add: cell update_char_changed)
  qed
qed

lemma row_key_fresh:
  assumes "fresh_slice b h sid" "q \<in> set (Flights b)"
  shows "row_key (with_slice h sid xs) q = row_key h q"
proof (cases "Flight (rows h ! q)")
  case None
  then show ?thesis by (simp add: row_key_def row_flight_def with_slice_def)
next
  case (Some p)
  with assms have "fst p \<noteq> sid" by (auto simp: fresh_slice_def list_all_iff)
  then show ?thesis using Some
    by (simp add: row_key_def row_flight_def with_slice_def deref_def)
qed

lemma UpdateFlights_in_place:
  assumes c: "sort_Slice_contract srt" and wf: "wf_board b h" and fresh: "fresh_slice b h sid"
    and k: "k < length (sorted_slice srt b h sid)"
    and once: "\<forall>j < length (sorted_slice srt b h sid).
                 FlightNumber (sorted_slice srt b h sid ! j) = FlightNumber (sorted_slice srt b h sid ! k)
                 \<longrightarrow> j = k"
    and r: "r \<in> set (Flights b)" "row_key h r = Some (FlightNumber (sorted_slice srt b h sid ! k))"
    and only: "\<forall>q \<in> set (Flights b).
                 row_key h q = Some (FlightNumber (sorted_slice srt b h sid ! k)) \<longrightarrow> q = r"
  shows "fst (UpdateFlights_result srt clk sid b h) ! k = r"
    and "r < length (rows h)"
    and "rows (snd (UpdateFlights_result srt clk sid b h)) ! r
           = updated_row (clk k) (sorted_slice srt b h sid ! k) (sid, k) (rows h ! r)"
proof -
  let ?xs = "sorted_slice srt b h sid"
  let ?h1 = "with_slice h sid ?xs"
  let ?em = "existing_rows b ?h1"
  let ?key = "FlightNumber (?xs ! k)"
  have r1: "row_key ?h1 r = Some ?key" using row_key_fresh [OF fresh r(1)] r(2) by simp
  from existing_rows_found [OF r(1) r1] obtain r' where
    r': "?em ?key = Some r'" "r' \<in> set (Flights b)" "row_key ?h1 r' = Some ?key" by blast
  from r'(2,3) row_key_fresh [OF fresh r'(2), of ?xs] only have "r' = r" by simp
  with r'(1) have em: "?em ?key = Some r" by simp
  note ex = UpdateFlights_result_existing [OF c wf k em]
  show "fst (UpdateFlights_result srt clk sid b h) ! k = r" by (rule ex(1))
  show "r < length (rows h)" by (rule ex(3))
  have miss: "\<forall>i \<in> set [0..<length ?xs]. i \<noteq> k \<longrightarrow> ?em (FlightNumber (?xs ! i)) \<noteq> Some r"
  proof (intro ballI impI notI)
    fix i assume i: "i \<in> set [0..<length ?xs]" "i \<noteq> k" "?em (FlightNumber (?xs ! i)) = Some r"
    from existing_rows_Some [OF i(3)] r1 have "FlightNumber (?xs ! i) = ?key" by simp
    with once i(1) have "i = k" by simp
    with i(2) show False by simp
  qed
  have "fold (hit_update clk sid ?em ?xs r) [0..<length ?xs] (rows h ! r)
          = updated_row (clk k) (?xs ! k) (sid, k) (rows h ! r)"
    using k em miss by (intro fold_single_hit) simp_all
  with ex(4) show "rows (snd (UpdateFlights_result srt clk sid b h)) ! r
           = updated_row (clk k) (?xs ! k) (sid, k) (rows h ! r)"
    by simp
qed

text \<open>
  Claim C1. Let the board hold exactly one row whose flight has the flight number of an
  incoming flight, that number occurring once in the incoming slice (at position \<open>k\<close> after
  sorting). Then \<^verbatim>\<open>UpdateFlights\<close> returns, position \<open>k\<close> of the new row list is that same
  row of the store, and the row is the old one updated in place with the incoming flight.
  If moreover the row shows a previous snapshot \<open>g\<close> from which the incoming flight differs,
  as displayed, in the gate only, then the status, flight number, time, destination and
  remarks fields are exactly as they were (no cell of them starts to blink), and a cell of
  the gate field starts to blink (state Blinking, phase 0, from the old to the new character)
  exactly where the old and the new gate text, at the width of 6, differ; every other cell
  of the gate field is as it was.
\<close>

theorem identity_reconciliation:
  assumes "sort_Slice_contract srt" and "wf_board b h" and "fresh_slice b h sid"
    and "k < length (sorted_slice srt b h sid)"
    and "\<forall>j < length (sorted_slice srt b h sid).
           FlightNumber (sorted_slice srt b h sid ! j) = FlightNumber (sorted_slice srt b h sid ! k)
           \<longrightarrow> j = k"
    and "r \<in> set (Flights b)"
    and "row_key h r = Some (FlightNumber (sorted_slice srt b h sid ! k))"
    and "\<forall>q \<in> set (Flights b).
           row_key h q = Some (FlightNumber (sorted_slice srt b h sid ! k)) \<longrightarrow> q = r"
  shows "\<exists>b' h'. UpdateFlights srt clk sid b h = Some (b', h') \<and>
           slices h' sid = sorted_slice srt b h sid \<and>
           Flights b' ! k = r \<and> r < length (rows h) \<and>
           rows h' ! r = updated_row (clk k) (sorted_slice srt b h sid ! k) (sid, k) (rows h ! r) \<and>
           (\<forall>g. row_shows (rows h ! r) g \<and> same_display_but_gate g (sorted_slice srt b h sid ! k) \<longrightarrow>
              StatusAnim (rows h' ! r) = StatusAnim (rows h ! r) \<and>
              FlightNumAnim (rows h' ! r) = FlightNumAnim (rows h ! r) \<and>
              TimeAnim (rows h' ! r) = TimeAnim (rows h ! r) \<and>
              DestinationAnim (rows h' ! r) = DestinationAnim (rows h ! r) \<and>
              RemarksAnim (rows h' ! r) = RemarksAnim (rows h ! r) \<and>
              (\<forall>j < 6. Chars (GateAnim (rows h' ! r)) ! j =
                 (if normalized 6 (gate_text g) ! j
                       \<noteq> normalized 6 (gate_text (sorted_slice srt b h sid ! k)) ! j
                  then Some \<lparr>OldChar = rune_of_byte (normalized 6 (gate_text g) ! j),
                             NewChar = rune_of_byte
                               (normalized 6 (gate_text (sorted_slice srt b h sid ! k)) ! j),
                             State = CharStateBlinking, BlinkPhase = 0, StartTime = clk k 4 j\<rparr>
                  else Chars (GateAnim (rows h ! r)) ! j)))"
proof -
  let ?xs = "sorted_slice srt b h sid"
  let ?f = "?xs ! k"
  let ?fr = "rows h ! r"
  from UpdateFlights_Some [OF assms(1,2), of clk sid] obtain b' h' where
    u: "UpdateFlights srt clk sid b h = Some (b', h')"
    and h': "h' = snd (UpdateFlights_result srt clk sid b h)"
    and fl: "Flights b' = fst (UpdateFlights_result srt clk sid b h)"
    and sl: "slices h' = (slices h)(sid := ?xs)"
    by metis
  note ip = UpdateFlights_in_place [OF assms]
  have row: "rows h' ! r = updated_row (clk k) ?f (sid, k) ?fr" by (simp add: h' ip(3))
  from assms(2) ip(2) have wfr: "wf_row ?fr" by (simp add: wf_board_def wf_heap_iff)
  then have w6: "length (Chars (GateAnim ?fr)) = 6" by (simp add: wf_row_def wf_field_def)
  have fields: "StatusAnim (rows h' ! r) = StatusAnim ?fr \<and>
              FlightNumAnim (rows h' ! r) = FlightNumAnim ?fr \<and>
              TimeAnim (rows h' ! r) = TimeAnim ?fr \<and>
              DestinationAnim (rows h' ! r) = DestinationAnim ?fr \<and>
              RemarksAnim (rows h' ! r) = RemarksAnim ?fr \<and>
              (\<forall>j < 6. Chars (GateAnim (rows h' ! r)) ! j =
                 (if normalized 6 (gate_text g) ! j \<noteq> normalized 6 (gate_text ?f) ! j
                  then Some \<lparr>OldChar = rune_of_byte (normalized 6 (gate_text g) ! j),
                             NewChar = rune_of_byte (normalized 6 (gate_text ?f) ! j),
                             State = CharStateBlinking, BlinkPhase = 0, StartTime = clk k 4 j\<rparr>
                  else Chars (GateAnim ?fr) ! j))"
    if g: "row_shows ?fr g \<and> same_display_but_gate g ?f" for g
  proof -
    from g have sh: "shows_text (StatusAnim ?fr) (getStatusChar (Status g))"
      "shows_text (FlightNumAnim ?fr) (truncate_string (FlightNumber g) 8)"
      "shows_text (TimeAnim ?fr) (Format_1504 (ScheduledDeparture g))"
      "shows_text (DestinationAnim ?fr) (truncate_string (GetDestination g) 20)"
      "shows_text (GateAnim ?fr) (gate_text g)"
      "shows_text (RemarksAnim ?fr) (truncate_string (Remarks g) 20)"
      by (simp_all add: row_shows_def)
    from g have eq: "getStatusChar (Status ?f) = getStatusChar (Status g)"
      "truncate_string (FlightNumber ?f) 8 = truncate_string (FlightNumber g) 8"
      "Format_1504 (ScheduledDeparture ?f) = Format_1504 (ScheduledDeparture g)"
      "truncate_string (GetDestination ?f) 20 = truncate_string (GetDestination g) 20"
      "truncate_string (Remarks ?f) 20 = truncate_string (Remarks g) 20"
      by (simp_all add: same_display_but_gate_def)
    have "StatusAnim (rows h' ! r) = StatusAnim ?fr"
      by (simp add: row updated_row_def eq updated_text_same [OF sh(1)])
    moreover have "FlightNumAnim (rows h' ! r) = FlightNumAnim ?fr"
      by (simp add: row updated_row_def eq updated_text_same [OF sh(2)])
    moreover have "TimeAnim (rows h' ! r) = TimeAnim ?fr"
      by (simp add: row updated_row_def eq updated_text_same [OF sh(3)])
    moreover have "DestinationAnim (rows h' ! r) = DestinationAnim ?fr"
      by (simp add: row updated_row_def eq updated_text_same [OF sh(4)])
    moreover have "RemarksAnim (rows h' ! r) = RemarksAnim ?fr"
      by (simp add: row updated_row_def eq updated_text_same [OF sh(6)])
    moreover have "\<forall>j < 6. Chars (GateAnim (rows h' ! r)) ! j =
                 (if normalized 6 (gate_text g) ! j \<noteq> normalized 6 (gate_text ?f) ! j
                  then Some \<lparr>OldChar = rune_of_byte (normalized 6 (gate_text g) ! j),
                             NewChar = rune_of_byte (normalized 6 (gate_text ?f) ! j),
                             State = CharStateBlinking, BlinkPhase = 0, StartTime = clk k 4 j\<rparr>
                  else Chars (GateAnim ?fr) ! j)"
    proof (intro allI impI)
      fix j :: nat assume "j < 6"
      then have j: "j < length (Chars (GateAnim ?fr))" by (simp add: w6)
      have "GateAnim (rows h' ! r) = updated_text (clk k 4) (gate_text ?f) (GateAnim ?fr)"
        by (simp add: row updated_row_def)
      with updated_text_cells [OF sh(5) j, of "clk k 4" "gate_text ?f"]
      show "Chars (GateAnim (rows h' ! r)) ! j =
                 (if normalized 6 (gate_text g) ! j \<noteq> normalized 6 (gate_text ?f) ! j
                  then Some \<lparr>OldChar = rune_of_byte (normalized 6 (gate_text g) ! j),
                             NewChar = rune_of_byte (normalized 6 (gate_text ?f) ! j),
                             State = CharStateBlinking, BlinkPhase = 0, StartTime = clk k 4 j\<rparr>
                  else Chars (GateAnim ?fr) ! j)"
        by (simp add: w6)
    qed
    ultimately show ?thesis by blast
  qed
  have "Flights b' ! k = r" by (simp add: fl ip(1))
  moreover have "slices h' sid = ?xs" by (simp add: sl)
  ultimately show ?thesis
    using u ip(2) row fields by (intro exI [of _ b'] exI [of _ h']) blast
qed

lemma wf_field_Tick: "wf_field n fld \<Longrightarrow> wf_field n (Tick clk fld)"
  by (simp add: wf_field_def Tick_def)

lemma wf_row_tick_fields: "wf_row fr \<Longrightarrow> wf_row (tick_fields clk fr)"
  by (simp add: wf_row_def tick_fields_def wf_field_Tick)

lemma Flight_tick_fields: "Flight (tick_fields clk fr) = Flight fr"
  by (simp add: tick_fields_def)

lemma wf_row_settled: "wf_row settled_row"
  unfolding settled_row_def
  by (intro wf_row_tick_fields wf_row_updated_row wf_row_filler)

lemma Flight_settled: "Flight settled_row = Some (1, 0)"
  by (simp add: settled_row_def Flight_tick_fields Flight_updated_row)

lemma row_shows_settled: "row_shows settled_row (example_flight ''BA114'' 1000)"
  unfolding settled_row_def
  by (intro row_shows_tick_fields row_shows_updated_row wf_row_filler)

lemma wf_gate_change: "wf_board gate_change_board gate_change_heap"
  by (simp add: wf_board_def wf_heap_def gate_change_board_def gate_change_heap_def
        wf_row_settled Flight_settled valid_ptr_def)

lemma fresh_gate_change: "fresh_slice gate_change_board gate_change_heap 0"
  by (simp add: fresh_slice_def gate_change_board_def gate_change_heap_def Flight_settled)

lemma sorted_gate_change:
  "sorted_slice stable_sort gate_change_board gate_change_heap 0
     = [(example_flight ''BA114'' 1000)\<lparr>Gate := ''B7''\<rparr>]"
  by (simp add: sorted_slice_def gate_change_board_def gate_change_heap_def fresh_board_def
        NewBoard_def stable_sort_single)
     (simp add: convert_flight_def example_flight_def In_def Let_def)

lemma row_key_gate_change: "row_key gate_change_heap 0 = Some ''BA114''"
  by (simp add: row_key_def row_flight_def gate_change_heap_def Flight_settled deref_def
        example_flight_def)

lemma same_display_gate_change:
  "same_display_but_gate (example_flight ''BA114'' 1000)
     ((example_flight ''BA114'' 1000)\<lparr>Gate := ''B7''\<rparr>)"
  by (simp add: same_display_but_gate_def example_flight_def GetDestination_def)

lemma gate_texts:
  "normalized 6 (gate_text (example_flight ''BA114'' 1000)) = ''A12   ''"
  "normalized 6 (gate_text ((example_flight ''BA114'' 1000)\<lparr>Gate := ''B7''\<rparr>)) = ''B7    ''"
  by (simp_all add: normalized_def gate_text_def truncate_string_def example_flight_def
        eval_nat_numeral)

text \<open>
  The gate of BA114 changes from A12 to B7 on a row whose animations have settled: cells 0
  to 2 of the gate field blink, cells 3 to 5 and the other five fields are unchanged.
\<close>

theorem identity_reconciliation_witness:
  "sort_Slice_contract stable_sort \<and> wf_board gate_change_board gate_change_heap \<and>
   fresh_slice gate_change_board gate_change_heap 0 \<and>
   row_key gate_change_heap 0 = Some ''BA114'' \<and>
   row_shows settled_row (example_flight ''BA114'' 1000) \<and>
   (\<exists>b' h'. UpdateFlights stable_sort (\<lambda>_ _ _. 900000000) 0 gate_change_board gate_change_heap
               = Some (b', h') \<and>
      slices h' 0 = [(example_flight ''BA114'' 1000)\<lparr>Gate := ''B7''\<rparr>] \<and>
      Flights b' ! 0 = 0 \<and>
      StatusAnim (rows h' ! 0) = StatusAnim settled_row \<and>
      FlightNumAnim (rows h' ! 0) = FlightNumAnim settled_row \<and>
      TimeAnim (rows h' ! 0) = TimeAnim settled_row \<and>
      DestinationAnim (rows h' ! 0) = DestinationAnim settled_row \<and>
      RemarksAnim (rows h' ! 0) = RemarksAnim settled_row \<and>
      map_option State (Chars (GateAnim (rows h' ! 0)) ! 0) = Some CharStateBlinking \<and>
      map_option State (Chars (GateAnim (rows h' ! 0)) ! 1) = Some CharStateBlinking \<and>
      map_option State (Chars (GateAnim (rows h' ! 0)) ! 2) = Some CharStateBlinking \<and>
      Chars (GateAnim (rows h' ! 0)) ! 3 = Chars (GateAnim settled_row) ! 3 \<and>
      Chars (GateAnim (rows h' ! 0)) ! 4 = Chars (GateAnim settled_row) ! 4 \<and>
      Chars (GateAnim (rows h' ! 0)) ! 5 = Chars (GateAnim settled_row) ! 5)"
proof -
  let ?f = "(example_flight ''BA114'' 1000)\<lparr>Gate := ''B7''\<rparr>"
  note xs = sorted_gate_change
  have k: "0 < length (sorted_slice stable_sort gate_change_board gate_change_heap 0)"
    by (simp add: xs)
  have once: "\<forall>j < length (sorted_slice stable_sort gate_change_board gate_change_heap 0).
           FlightNumber (sorted_slice stable_sort gate_change_board gate_change_heap 0 ! j)
             = FlightNumber (sorted_slice stable_sort gate_change_board gate_change_heap 0 ! 0)
           \<longrightarrow> j = 0"
    by (simp add: xs)
  have r: "0 \<in> set (Flights gate_change_board)" by (simp add: gate_change_board_def)
  have key: "row_key gate_change_heap 0
               = Some (FlightNumber (sorted_slice stable_sort gate_change_board gate_change_heap 0 ! 0))"
    by (simp add: xs row_key_gate_change example_flight_def)
  have only: "\<forall>q \<in> set (Flights gate_change_board).
           row_key gate_change_heap q
             = Some (FlightNumber (sorted_slice stable_sort gate_change_board gate_change_heap 0 ! 0))
           \<longrightarrow> q = 0"
    by (simp add: gate_change_board_def)
  have row0: "rows gate_change_heap ! 0 = settled_row" by (simp add: gate_change_heap_def)
  from identity_reconciliation [OF contract_stable_sort wf_gate_change fresh_gate_change k once
      r key only, of "\<lambda>_ _ _. 900000000"]
  obtain b' h' where
    u: "UpdateFlights stable_sort (\<lambda>_ _ _. 900000000) 0 gate_change_board gate_change_heap
          = Some (b', h')"
    and sl: "slices h' 0 = [?f]" and f0: "Flights b' ! 0 = 0"
    and imp: "\<forall>g. row_shows settled_row g \<and> same_display_but_gate g ?f \<longrightarrow>
              StatusAnim (rows h' ! 0) = StatusAnim settled_row \<and>
              FlightNumAnim (rows h' ! 0) = FlightNumAnim settled_row \<and>
              TimeAnim (rows h' ! 0) = TimeAnim settled_row \<and>
              DestinationAnim (rows h' ! 0) = DestinationAnim settled_row \<and>
              RemarksAnim (rows h' ! 0) = RemarksAnim settled_row \<and>
              (\<forall>j < 6. Chars (GateAnim (rows h' ! 0)) ! j =
                 (if normalized 6 (gate_text g) ! j \<noteq> normalized 6 (gate_text ?f) ! j
                  then Some \<lparr>OldChar = rune_of_byte (normalized 6 (gate_text g) ! j),
                             NewChar = rune_of_byte (normalized 6 (gate_text ?f) ! j),
                             State = CharStateBlinking, BlinkPhase = 0, StartTime = 900000000\<rparr>
                  else Chars (GateAnim settled_row) ! j))"
    unfolding xs row0 by auto
  from imp row_shows_settled same_display_gate_change
  have fields: "StatusAnim (rows h' ! 0) = StatusAnim settled_row"
    "FlightNumAnim (rows h' ! 0) = FlightNumAnim settled_row"
    "TimeAnim (rows h' ! 0) = TimeAnim settled_row"
    "DestinationAnim (rows h' ! 0) = DestinationAnim settled_row"
    "RemarksAnim (rows h' ! 0) = RemarksAnim settled_row"
    and cells: "\<forall>j < 6. Chars (GateAnim (rows h' ! 0)) ! j =
                 (if ''A12   '' ! j \<noteq> ''B7    '' ! j
                  then Some \<lparr>OldChar = rune_of_byte (''A12   '' ! j),
                             NewChar = rune_of_byte (''B7    '' ! j),
                             State = CharStateBlinking, BlinkPhase = 0, StartTime = 900000000\<rparr>
                  else Chars (GateAnim settled_row) ! j)"
    unfolding gate_texts [symmetric] by blast+
  have c0: "map_option State (Chars (GateAnim (rows h' ! 0)) ! 0) = Some CharStateBlinking"
    using cells [rule_format, of 0] by simp
  have c1: "map_option State (Chars (GateAnim (rows h' ! 0)) ! 1) = Some CharStateBlinking"
    using cells [rule_format, of 1] by simp
  have c2: "map_option State (Chars (GateAnim (rows h' ! 0)) ! 2) = Some CharStateBlinking"
    using cells [rule_format, of 2] by simp
  have c3: "Chars (GateAnim (rows h' ! 0)) ! 3 = Chars (GateAnim settled_row) ! 3"
    using cells [rule_format, of 3] by simp
  have c4: "Chars (GateAnim (rows h' ! 0)) ! 4 = Chars (GateAnim settled_row) ! 4"
    using cells [rule_format, of 4] by simp
  have c5: "Chars (GateAnim (rows h' ! 0)) ! 5 = Chars (GateAnim settled_row) ! 5"
    using cells [rule_format, of 5] by simp
  show ?thesis
    using contract_stable_sort wf_gate_change fresh_gate_change row_key_gate_change
      row_shows_settled u sl f0 fields c0 c1 c2 c3 c4 c5
    by blast
qed

lemma Render_Some:
  "wf_field n fld \<Longrightarrow> Render fld = Some (string_of_runes (map render_char (Chars fld)))"
  by (simp add: Render_def Render_runes_wf wf_field_text)

lemma FlightRow_Render_Some:
  assumes r: "r < length (rows h)" and w: "wf_row (rows h ! r)"
    and p: "valid_ptr h (Flight (rows h ! r))"
  shows "\<exists>s. FlightRow_Render styles h r = Some s"
proof (cases "Flight (rows h ! r)")
  case None
  then show ?thesis using r by (simp add: FlightRow_Render_def lookup_row_def)
next
  case (Some q)
  then have "snd q < length (slices h (fst q))" using p by (simp add: valid_ptr_def)
  then have d: "deref h q = Some (slices h (fst q) ! snd q)" by (simp add: deref_def)
  from w have f: "wf_field 1 (StatusAnim (rows h ! r))" "wf_field 8 (FlightNumAnim (rows h ! r))"
    "wf_field 8 (TimeAnim (rows h ! r))" "wf_field 20 (DestinationAnim (rows h ! r))"
    "wf_field 6 (GateAnim (rows h ! r))" "wf_field 20 (RemarksAnim (rows h ! r))"
    by (simp_all add: wf_row_def)
  show ?thesis
    using r Some d by (simp add: FlightRow_Render_def lookup_row_def f [THEN Render_Some])
qed

lemma those_map_Some:
  "(\<And>x. x \<in> set xs \<Longrightarrow> \<exists>y. f x = Some y) \<Longrightarrow>
   \<exists>ys. those (map f xs) = Some ys \<and> length ys = length xs"
proof (induction xs)
  case Nil
  then show ?case by simp
next
  case (Cons x xs)
  from Cons.prems obtain y where y: "f x = Some y" by auto
  from Cons.IH Cons.prems obtain ys where "those (map f xs) = Some ys" "length ys = length xs"
    by auto
  with y show ?case by simp
qed

lemma list_all_replicate: "P x \<Longrightarrow> list_all P (replicate k x)"
  by (induction k) simp_all

lemma wf_heap_fill:
  assumes "wf_heap h"
  shows "wf_heap (h\<lparr>rows := rows h @ replicate k filler_row\<rparr>)"
proof -
  have "wf_row filler_row \<and> valid_ptr h (Flight filler_row)"
    by (simp add: wf_row_filler) (simp add: filler_row_def valid_ptr_def)
  then have "list_all (\<lambda>fr. wf_row fr \<and> valid_ptr h (Flight fr)) (replicate k filler_row)"
    by (rule list_all_replicate)
  with assms show ?thesis
    by (simp add: wf_heap_rows_update) (simp add: wf_heap_def)
qed

lemma page_rows_Some:
  assumes wf: "wf_board b h" and c: "0 \<le> CurrentPage b"
  shows "\<exists>page h' rowStrs. GetCurrentPageFlights b h = Some (page, h') \<and>
           those (map (FlightRow_Render (Styles b) h') page) = Some rowStrs \<and>
           length rowStrs = nat (pageSize b)"
proof -
  define real where "real = take (nat (pageSize b)) (drop (nat (CurrentPage b * pageSize b)) (Flights b))"
  define k where "k = nat (pageSize b) - length real"
  define page where "page = real @ [length (rows h) ..< length (rows h) + k]"
  define h' where "h' = h\<lparr>rows := rows h @ replicate k filler_row\<rparr>"
  have G: "GetCurrentPageFlights b h = Some (page, h')"
    unfolding page_def h'_def k_def real_def by (rule GetCurrentPageFlights_eq [OF c])
  from wf have wh: "wf_heap h" and fl: "\<forall>r \<in> set (Flights b). r < length (rows h)"
    by (simp_all add: wf_board_def list_all_iff)
  have "wf_heap h'" unfolding h'_def by (rule wf_heap_fill [OF wh])
  then have rowsok: "\<forall>r < length (rows h'). wf_row (rows h' ! r) \<and> valid_ptr h' (Flight (rows h' ! r))"
    by (simp only: wf_heap_iff)
  have len': "length (rows h') = length (rows h) + k" by (simp add: h'_def)
  have inpage: "r < length (rows h')" if "r \<in> set page" for r
  proof -
    from that consider "r \<in> set real" | "r < length (rows h) + k" by (auto simp: page_def)
    then show ?thesis
    proof cases
      case 1
      then have "r \<in> set (Flights b)" unfolding real_def by (meson in_set_dropD in_set_takeD)
      then have "r < length (rows h)" using fl by simp
      then show ?thesis using len' by linarith
    next
      case 2
      then show ?thesis using len' by linarith
    qed
  qed
  have "\<exists>s. FlightRow_Render (Styles b) h' r = Some s" if "r \<in> set page" for r
    using FlightRow_Render_Some [OF inpage [OF that]] rowsok inpage [OF that] by blast
  from those_map_Some [of page "FlightRow_Render (Styles b) h'", OF this]
  obtain rowStrs where rs: "those (map (FlightRow_Render (Styles b) h') page) = Some rowStrs"
    and len: "length rowStrs = length page" by blast
  have "length real \<le> nat (pageSize b)" by (simp add: real_def)
  then have "length page = nat (pageSize b)" by (simp add: page_def k_def)
  with G rs len show ?thesis by metis
qed

lemma GetCurrentPageFlights_Error:
  "GetCurrentPageFlights (b\<lparr>Error := e\<rparr>) h = GetCurrentPageFlights b h"
  by (simp add: GetCurrentPageFlights_def Let_def)

lemma Render_sections_eq:
  assumes "GetCurrentPageFlights b h = Some (page, h')"
    and "those (map (FlightRow_Render (Styles b) h') page) = Some rowStrs"
  shows "Render_sections (b\<lparr>Error := e\<rparr>) h
           = Some ([renderAirportHeader b] @ (if e \<noteq> [] then [ErrorStyle (Styles b) (''ERROR: '' @ e)] else []) @
                   [renderHeader b] @
                   rowStrs @ [renderPageInfo b])"
  using assms
  by (simp add: Render_sections_def GetCurrentPageFlights_Error
      renderAirportHeader_def renderHeader_def renderPageInfo_def)

lemma Error_UpdateFlights:
  "UpdateFlights srt clk sid b h = Some (b', h') \<Longrightarrow> Error b' = Error b"
  by (auto simp: UpdateFlights_def updatePagination_frame Let_def split: Option.bind_splits prod.splits if_splits)

text \<open>
  Claim C9. A \<^verbatim>\<open>flightsMsg\<close> (or an \<^verbatim>\<open>errMsg\<close>) that carries an error changes, of the board,
  the error string only, and leaves the store (the rows with their cells, the slices) as it
  is: \<^verbatim>\<open>UpdateFlights\<close> is not called. A well-formed board on a page index that is not
  negative is rendered before and after: the sections are the airport header, the banner
  \<open>ERROR: \<close> with the error text (when the text is not empty), the column header, the same
  \<open>pageSize\<close> rows as before, and the page information. A following \<^verbatim>\<open>flightsMsg\<close> without
  error returns a board whose error string is empty.
\<close>

theorem fetch_failure_presentational:
  assumes "sort_Slice_contract srt" and "wf_board (board m) h" and "0 \<le> CurrentPage (board m)"
  shows "model_Update srt clk (flightsMsg sid (Some e)) m h
           = Some (m\<lparr>loading := False, err := Some e, board := (board m)\<lparr>Error := e\<rparr>\<rparr>, h) \<and>
         model_Update srt clk (errMsg e) m h
           = Some (m\<lparr>loading := False, err := Some e, board := (board m)\<lparr>Error := e\<rparr>\<rparr>, h) \<and>
         (\<exists>rowStrs. length rowStrs = nat (pageSize (board m)) \<and>
            Render_sections (board m) h
              = Some ([renderAirportHeader (board m)] @
                      (if Error (board m) \<noteq> []
                       then [ErrorStyle (Styles (board m)) (''ERROR: '' @ Error (board m))] else []) @
                      [renderHeader (board m)] @ rowStrs @ [renderPageInfo (board m)]) \<and>
            Render_sections ((board m)\<lparr>Error := e\<rparr>) h
              = Some ([renderAirportHeader (board m)] @
                      (if e \<noteq> [] then [ErrorStyle (Styles (board m)) (''ERROR: '' @ e)] else []) @
                      [renderHeader (board m)] @ rowStrs @ [renderPageInfo (board m)]) \<and>
            Board_Render join ((board m)\<lparr>Error := e\<rparr>) h
              = Some (Background (Styles (board m))
                        (join ([renderAirportHeader (board m)] @
                               (if e \<noteq> [] then [ErrorStyle (Styles (board m)) (''ERROR: '' @ e)] else []) @
                               [renderHeader (board m)] @ rowStrs @ [renderPageInfo (board m)])))) \<and>
         (\<exists>m' h'. model_Update srt clk' (flightsMsg sid' None)
                     (m\<lparr>loading := False, err := Some e, board := (board m)\<lparr>Error := e\<rparr>\<rparr>) h
                   = Some (m', h') \<and>
                 Error (board m') = [])"
proof -
  let ?b = "board m"
  let ?m = "m\<lparr>loading := False, err := Some e, board := ?b\<lparr>Error := e\<rparr>\<rparr>"
  have fail: "model_Update srt clk (flightsMsg sid (Some e)) m h = Some (?m, h)"
    by (simp add: model_Update_def)
  have fail': "model_Update srt clk (errMsg e) m h = Some (?m, h)"
    by (simp add: model_Update_def)
  from page_rows_Some [OF assms(2,3)] obtain page h1 rowStrs where
    g: "GetCurrentPageFlights ?b h = Some (page, h1)"
    and rs: "those (map (FlightRow_Render (Styles ?b) h1) page) = Some rowStrs"
    and len: "length rowStrs = nat (pageSize ?b)" by blast
  have before: "Render_sections ?b h
              = Some ([renderAirportHeader ?b] @
                      (if Error ?b \<noteq> [] then [ErrorStyle (Styles ?b) (''ERROR: '' @ Error ?b)] else []) @
                      [renderHeader ?b] @ rowStrs @ [renderPageInfo ?b])"
    using Render_sections_eq [OF g rs, of "Error ?b"] by simp
  note after = Render_sections_eq [OF g rs, of e]
  have frame: "Board_Render join (?b\<lparr>Error := e\<rparr>) h
              = Some (Background (Styles ?b)
                        (join ([renderAirportHeader ?b] @
                               (if e \<noteq> [] then [ErrorStyle (Styles ?b) (''ERROR: '' @ e)] else []) @
                               [renderHeader ?b] @ rowStrs @ [renderPageInfo ?b])))"
    by (simp add: Board_Render_def after)
  have wf: "wf_board (?b\<lparr>Error := []\<rparr>) h" using assms(2) by (simp add: wf_board_def)
  from UpdateFlights_Some [OF assms(1) wf, of clk' sid'] obtain b' h' where
    u: "UpdateFlights srt clk' sid' (?b\<lparr>Error := []\<rparr>) h = Some (b', h')" by blast
  from Error_UpdateFlights [OF u] have "Error b' = []" by simp
  with u have ok: "\<exists>m' h'. model_Update srt clk' (flightsMsg sid' None) ?m h = Some (m', h') \<and>
                     Error (board m') = []"
    by (simp add: model_Update_def)
  from fail fail' len before after frame ok show ?thesis by blast
qed

text \<open>
  The fetch for JFK fails on a board with one row: the frame has six sections, the first two
  being the airport header and the banner.
\<close>

theorem fetch_failure_presentational_witness:
  "sort_Slice_contract stable_sort \<and> wf_board (board waiting_model) gate_change_heap \<and>
   0 \<le> CurrentPage (board waiting_model) \<and>
   model_Update stable_sort (\<lambda>_ _ _. 900000000) (flightsMsg 0 (Some ''airport not found: JFK''))
       waiting_model gate_change_heap
     = Some (waiting_model\<lparr>loading := False, err := Some ''airport not found: JFK'',
                            board := gate_change_board\<lparr>Error := ''airport not found: JFK''\<rparr>\<rparr>,
             gate_change_heap) \<and>
   map_option (take 2)
       (Render_sections (gate_change_board\<lparr>Error := ''airport not found: JFK''\<rparr>) gate_change_heap)
     = Some [''DEPARTURES - JFK'', ''ERROR: airport not found: JFK''] \<and>
   map_option length
       (Render_sections (gate_change_board\<lparr>Error := ''airport not found: JFK''\<rparr>) gate_change_heap)
     = Some 6 \<and>
   (\<exists>m' h'. model_Update stable_sort (\<lambda>_ _ _. 900000000) (flightsMsg 0 None)
               (waiting_model\<lparr>loading := False, err := Some ''airport not found: JFK'',
                               board := gate_change_board\<lparr>Error := ''airport not found: JFK''\<rparr>\<rparr>)
               gate_change_heap
             = Some (m', h') \<and> Error (board m') = [])"
proof -
  have b: "board waiting_model = gate_change_board" by (simp add: waiting_model_def)
  have wf: "wf_board (board waiting_model) gate_change_heap" by (simp add: b wf_gate_change)
  have c: "0 \<le> CurrentPage (board waiting_model)"
    by (simp add: b gate_change_board_def fresh_board_def NewBoard_def)
  have ps: "nat (pageSize gate_change_board) = 2"
    by (simp add: pageSize_def gate_change_board_def fresh_board_def NewBoard_def)
  have hd: "renderAirportHeader gate_change_board = ''DEPARTURES - JFK''"
    "ErrorStyle (Styles gate_change_board) (''ERROR: '' @ ''airport not found: JFK'')
       = ''ERROR: airport not found: JFK''"
    by (simp_all add: renderAirportHeader_def gate_change_board_def fresh_board_def NewBoard_def
        plain_styles_def)
  from fetch_failure_presentational [OF contract_stable_sort wf c,
      of "\<lambda>_ _ _. 900000000" 0 "''airport not found: JFK''" concat "\<lambda>_ _ _. 900000000" 0]
  obtain rowStrs where
    fail: "model_Update stable_sort (\<lambda>_ _ _. 900000000) (flightsMsg 0 (Some ''airport not found: JFK''))
             waiting_model gate_change_heap
           = Some (waiting_model\<lparr>loading := False, err := Some ''airport not found: JFK'',
                                  board := gate_change_board\<lparr>Error := ''airport not found: JFK''\<rparr>\<rparr>,
                   gate_change_heap)"
    and len: "length rowStrs = 2"
    and sec: "Render_sections (gate_change_board\<lparr>Error := ''airport not found: JFK''\<rparr>) gate_change_heap
              = Some ([''DEPARTURES - JFK''] @ [''ERROR: airport not found: JFK''] @
                      [renderHeader gate_change_board] @ rowStrs @ [renderPageInfo gate_change_board])"
    and ok: "\<exists>m' h'. model_Update stable_sort (\<lambda>_ _ _. 900000000) (flightsMsg 0 None)
               (waiting_model\<lparr>loading := False, err := Some ''airport not found: JFK'',
                               board := gate_change_board\<lparr>Error := ''airport not found: JFK''\<rparr>\<rparr>)
               gate_change_heap
             = Some (m', h') \<and> Error (board m') = []"
    unfolding b ps hd by auto
  have "map_option (take 2)
       (Render_sections (gate_change_board\<lparr>Error := ''airport not found: JFK''\<rparr>) gate_change_heap)
     = Some [''DEPARTURES - JFK'', ''ERROR: airport not found: JFK'']"
    by (simp add: sec)
  moreover have "map_option length
       (Render_sections (gate_change_board\<lparr>Error := ''airport not found: JFK''\<rparr>) gate_change_heap)
     = Some 6"
    by (simp add: sec len)
  ultimately show ?thesis
    using contract_stable_sort wf c fail ok by blast
qed

end
